theory Spec2Isabelle
  imports Complex_Main
begin

section \<open>Python values, objects and the heap\<close>

text \<open>
  The development embeds \<^verbatim>\<open>src/dedekind.py\<close>: the filter-matrix builder
  \<^verbatim>\<open>linear_filter_matrix\<close> with its module-level cache \<^verbatim>\<open>WMAT_CACHE\<close>, and the
  pipeline \<^verbatim>\<open>dedekind\<close>.

  Python floats are idealised as reals and complex floats as complex numbers, so rounding
  is not modelled. Where numpy divides by zero it answers with inf or nan and a warning;
  the reals have no such values, and theorems whose result depends on a quotient carry the
  hypothesis that the divisor is not zero.

  Every exception of the source is a value of \<open>error\<close>. Objects that are passed in,
  stored in a dictionary or handed back live in a heap, addressed by natural numbers: the
  input arrays and lists, the dictionaries, the cached matrices and the returned arrays.
  Arrays that one call allocates and never hands out (\<^verbatim>\<open>taper\<close>, \<^verbatim>\<open>filter_mat_inv\<close>,
  \<^verbatim>\<open>wmat\<close> in mode \<^verbatim>\<open>"I"\<close>, the intermediate values of \<^verbatim>\<open>output\<close>) are plain values.
\<close>

datatype error =
  IndexError | NameError | UnboundLocalError | ValueError | ZeroDivisionError | TypeError

type_synonym addr = nat
type_synonym matrix = "complex list list"

text \<open>
  A cache key is a Python tuple of numbers and booleans. Python compares tuples element by
  element with numeric equality across \<^verbatim>\<open>int\<close>, \<^verbatim>\<open>float\<close> and \<^verbatim>\<open>bool\<close>
  (\<^verbatim>\<open>True == 1 == 1.0\<close>, with equal hashes), so a key is the list of the real values of
  its entries.
\<close>

type_synonym key = "real list"

datatype pyobj =
  FloatArray "real list"
  | ComplexArray "complex list"
  | BoolArray "bool list"
  | PyList "real list"
  | Matrix matrix
  | Dict "key \<Rightarrow> addr option"

record heap =
  objs :: "addr \<Rightarrow> pyobj option"
  fresh :: addr

type_synonym 'a result = "(error + 'a) \<times> heap"

definition alloc :: "pyobj \<Rightarrow> heap \<Rightarrow> addr \<times> heap" where
  "alloc v h = (fresh h, h\<lparr>objs := (objs h)(fresh h \<mapsto> v), fresh := Suc (fresh h)\<rparr>)"

definition get_floats :: "heap \<Rightarrow> addr \<Rightarrow> error + real list" where
  "get_floats h a = (case objs h a of Some (FloatArray xs) \<Rightarrow> Inr xs | _ \<Rightarrow> Inl TypeError)"

definition get_complexes :: "heap \<Rightarrow> addr \<Rightarrow> error + complex list" where
  "get_complexes h a = (case objs h a of Some (ComplexArray xs) \<Rightarrow> Inr xs | _ \<Rightarrow> Inl TypeError)"

definition get_bools :: "heap \<Rightarrow> addr \<Rightarrow> error + bool list" where
  "get_bools h a = (case objs h a of Some (BoolArray xs) \<Rightarrow> Inr xs | _ \<Rightarrow> Inl TypeError)"

definition get_list :: "heap \<Rightarrow> addr \<Rightarrow> error + real list" where
  "get_list h a = (case objs h a of Some (PyList xs) \<Rightarrow> Inr xs | _ \<Rightarrow> Inl TypeError)"

definition get_matrix :: "heap \<Rightarrow> addr \<Rightarrow> error + matrix" where
  "get_matrix h a = (case objs h a of Some (Matrix m) \<Rightarrow> Inr m | _ \<Rightarrow> Inl TypeError)"

definition get_dict :: "heap \<Rightarrow> addr \<Rightarrow> error + (key \<Rightarrow> addr option)" where
  "get_dict h a = (case objs h a of Some (Dict d) \<Rightarrow> Inr d | _ \<Rightarrow> Inl TypeError)"

text \<open>The module-level dictionary \<^verbatim>\<open>WMAT_CACHE = {}\<close> (line 4) is the object at address 0.\<close>

definition WMAT_CACHE :: addr where
  "WMAT_CACHE = 0"

definition module_heap :: heap where
  "module_heap = \<lparr>objs = Map.empty(WMAT_CACHE \<mapsto> Dict Map.empty), fresh = 1\<rparr>"

section \<open>numpy operations\<close>

text \<open>\<^verbatim>\<open>np.arange(-nf/2, nf/2)\<close>: \<open>nf\<close> values starting at \<open>-nf/2\<close> (true division), step 1.\<close>

definition arange_sym :: "nat \<Rightarrow> real list" where
  "arange_sym nf = map (\<lambda>i. real i - real nf / 2) [0..<nf]"

text \<open>Line 23: \<^verbatim>\<open>freqs = np.arange(-nf/2,nf/2) * df\<close>.\<close>

definition freq_grid :: "nat \<Rightarrow> real \<Rightarrow> real list" where
  "freq_grid nf df = map (\<lambda>a. a * df) (arange_sym nf)"

text \<open>\<^verbatim>\<open>np.sinc\<close>, the normalised sinc.\<close>

definition sinc :: "real \<Rightarrow> real" where
  "sinc x = (if x = 0 then 1 else sin (pi * x) / (pi * x))"

definition zeros :: "nat \<Rightarrow> matrix" where
  "zeros n = replicate n (replicate n 0)"

definition identity :: "nat \<Rightarrow> matrix" where
  "identity n = map (\<lambda>i. map (\<lambda>j. if i = j then 1 else 0) [0..<n]) [0..<n]"

definition madd :: "matrix \<Rightarrow> matrix \<Rightarrow> matrix" where
  "madd A B = map2 (map2 (+)) A B"

text \<open>\<^verbatim>\<open>np.where(flags)[0]\<close>: the indices of the set flags, ascending.\<close>

definition where_true :: "bool list \<Rightarrow> nat list" where
  "where_true flags = filter (\<lambda>i. flags ! i) [0..<length flags]"

text \<open>
  Broadcasting an \<open>nf \<times> nf\<close> array against a Python list: the list becomes a one-dimensional
  array that is laid along the columns. It must have one element or \<open>nf\<close> elements; any
  other length is a ValueError.
\<close>

definition broadcastable :: "nat \<Rightarrow> real list \<Rightarrow> bool" where
  "broadcastable nf xs = (length xs = 1 \<or> length xs = nf)"

definition bcast :: "real list \<Rightarrow> nat \<Rightarrow> real" where
  "bcast xs j = (if length xs = 1 then xs ! 0 else xs ! j)"

text \<open>
  Elementwise operation on two one-dimensional arrays, with numpy's broadcasting of an
  operand of length one.
\<close>

definition elementwise :: "('a \<Rightarrow> 'b \<Rightarrow> 'c) \<Rightarrow> 'a list \<Rightarrow> 'b list \<Rightarrow> error + 'c list" where
  "elementwise f xs ys =
     (if length xs = length ys then Inr (map2 f xs ys)
      else if length xs = 1 then Inr (map (f (xs ! 0)) ys)
      else if length ys = 1 then Inr (map (\<lambda>x. f x (ys ! 0)) xs)
      else Inl ValueError)"

text \<open>\<^verbatim>\<open>M[:,flags] = 0.\<close> and \<^verbatim>\<open>M[flags,:] = 0.\<close> with a boolean mask.\<close>

definition zero_cols :: "bool list \<Rightarrow> matrix \<Rightarrow> matrix" where
  "zero_cols flags M = map (\<lambda>row. map2 (\<lambda>f x. if f then 0 else x) flags row) M"

definition zero_rows :: "bool list \<Rightarrow> matrix \<Rightarrow> matrix" where
  "zero_rows flags M = map2 (\<lambda>f row. if f then map (\<lambda>x. 0) row else row) flags M"

text \<open>
  Lines 44 to 46 and 86 to 88, on an \<open>nf \<times> nf\<close> array: a boolean mask whose length is not
  \<open>nf\<close> is an IndexError.
\<close>

definition zero_flagged :: "nat \<Rightarrow> bool list \<Rightarrow> matrix \<Rightarrow> error + matrix" where
  "zero_flagged nf flags M =
     (if length flags \<noteq> nf then Inl IndexError
      else Inr (zero_rows flags (zero_cols flags M)))"

text \<open>\<^verbatim>\<open>np.dot(M, y)\<close> for a two-dimensional \<open>M\<close> and a one-dimensional \<open>y\<close>.\<close>

definition ncols :: "matrix \<Rightarrow> nat" where
  "ncols M = (case M of [] \<Rightarrow> 0 | row # rows \<Rightarrow> length row)"

definition dot :: "matrix \<Rightarrow> complex list \<Rightarrow> error + complex list" where
  "dot M y =
     (if ncols M \<noteq> length y then Inl ValueError
      else Inr (map (\<lambda>row. \<Sum>k<length y. row ! k * y ! k) M))"

text \<open>
  \<^verbatim>\<open>numpy.fft.fft\<close>, \<^verbatim>\<open>ifft\<close> and \<^verbatim>\<open>fftshift\<close> by their documented definitions:
  \<open>A\<^sub>k = \<Sum>\<^sub>m a\<^sub>m exp(-2\<pi>i mk/n)\<close>, \<open>a\<^sub>m = (1/n) \<Sum>\<^sub>k A\<^sub>k exp(2\<pi>i mk/n)\<close>, and a rotation
  that moves entry 0 to index \<open>n div 2\<close>. A transform of no points is a ValueError.
\<close>

definition twiddle :: "nat \<Rightarrow> int \<Rightarrow> complex" where
  "twiddle n k = exp (2 * \<i> * of_real pi * of_int k / of_nat n)"

definition fft :: "complex list \<Rightarrow> error + complex list" where
  "fft a =
     (let n = length a in
      if n = 0 then Inl ValueError
      else Inr (map (\<lambda>k. \<Sum>m<n. a ! m * twiddle n (- int (m * k))) [0..<n]))"

definition ifft :: "complex list \<Rightarrow> error + complex list" where
  "ifft A =
     (let n = length A in
      if n = 0 then Inl ValueError
      else Inr (map (\<lambda>m. (\<Sum>k<n. A ! k * twiddle n (int (m * k))) / of_nat n) [0..<n]))"

definition fftshift :: "'a list \<Rightarrow> 'a list" where
  "fftshift xs = (let p = (length xs + 1) div 2 in drop p xs @ take p xs)"

section \<open>The filter-matrix builder\<close>

text \<open>
  Continuous mode, lines 28 to 33. \<^verbatim>\<open>np.meshgrid(freqs, freqs)\<close> gives
  \<open>fx[i,j] = freqs[j]\<close> and \<open>fy[i,j] = freqs[i]\<close>, so entry \<open>(i, j)\<close> of \<^verbatim>\<open>fx-fy\<close> is
  \<open>freqs[j] - freqs[i]\<close>. The summand of line 32 multiplies that array by the lists
  \<^verbatim>\<open>patch_w\<close> and \<^verbatim>\<open>patch_c\<close> themselves (the loop variables \<^verbatim>\<open>cp\<close>, \<^verbatim>\<open>cw\<close> are not
  read), so each list is broadcast along the columns.
\<close>

definition patch_term :: "real list \<Rightarrow> real list \<Rightarrow> real list \<Rightarrow> real \<Rightarrow> nat \<Rightarrow> nat \<Rightarrow> complex" where
  "patch_term freqs patch_c patch_w filter_factor i j =
     (let d = freqs ! j - freqs ! i in
      of_real (sinc (2 * d * bcast patch_w j))
        * exp (- 2 * \<i> * of_real pi * of_real d * of_real (bcast patch_c j))
        / of_real filter_factor)"

definition patch_matrix :: "nat \<Rightarrow> real list \<Rightarrow> real list \<Rightarrow> real list \<Rightarrow> real \<Rightarrow> error + matrix" where
  "patch_matrix nf freqs patch_c patch_w filter_factor =
     (if broadcastable nf patch_w \<and> broadcastable nf patch_c
      then Inr (map (\<lambda>i. map (\<lambda>j. patch_term freqs patch_c patch_w filter_factor i j) [0..<nf])
                  [0..<nf])
      else Inl ValueError)"

text \<open>The loop of lines 30 to 32 over \<^verbatim>\<open>zip(patch_c, patch_w)\<close>.\<close>

fun patch_loop ::
  "nat \<Rightarrow> real list \<Rightarrow> real list \<Rightarrow> real list \<Rightarrow> real \<Rightarrow> (real \<times> real) list \<Rightarrow> matrix
     \<Rightarrow> error + matrix" where
  "patch_loop nf freqs patch_c patch_w filter_factor [] M = Inr M"
| "patch_loop nf freqs patch_c patch_w filter_factor ((cp, cw) # ps) M =
     (if filter_factor > 0 then
        (case patch_matrix nf freqs patch_c patch_w filter_factor of
           Inl e \<Rightarrow> Inl e
         | Inr T \<Rightarrow> patch_loop nf freqs patch_c patch_w filter_factor ps (madd M T))
      else patch_loop nf freqs patch_c patch_w filter_factor ps M)"

definition continuous_inv :: "nat \<Rightarrow> real list \<Rightarrow> real list \<Rightarrow> real list \<Rightarrow> real \<Rightarrow> error + matrix" where
  "continuous_inv nf freqs patch_c patch_w filter_factor =
     (case patch_loop nf freqs patch_c patch_w filter_factor (zip patch_c patch_w) (zeros nf) of
        Inl e \<Rightarrow> Inl e
      | Inr M \<Rightarrow> Inr (madd M (identity (length freqs))))"

text \<open>
  Discrete mode, lines 35 to 43. Line 41 binds the names \<^verbatim>\<open>imag\<close> and \<^verbatim>\<open>jmat\<close>; line 42
  reads \<^verbatim>\<open>imat\<close>, which is bound nowhere in the module, so the branch ends in a NameError
  and no value it computed before is ever used. Before line 42 only two operations can
  raise, both on Python floats: \<^verbatim>\<open>fft.fftfreq(nf, df)\<close> evaluates \<^verbatim>\<open>1.0 / (nf * df)\<close>, and
  line 38 evaluates \<^verbatim>\<open>1./2./cw\<close> for each patch.
\<close>

definition discrete_inv :: "real \<Rightarrow> (real \<times> real) list \<Rightarrow> error + matrix" where
  "discrete_inv df patches =
     (if df = 0 \<or> (\<exists>p \<in> set patches. snd p = 0) then Inl ZeroDivisionError
      else Inl NameError)"

text \<open>Lines 27 to 46: the array that line 48 hands to \<^verbatim>\<open>np.linalg.pinv\<close>.\<close>

definition filter_mat_inv ::
  "nat \<Rightarrow> real \<Rightarrow> real list \<Rightarrow> real list \<Rightarrow> real \<Rightarrow> bool \<Rightarrow> bool list \<Rightarrow> bool \<Rightarrow> error + matrix" where
  "filter_mat_inv nf df patch_c patch_w filter_factor zero_flags flags discrete_ft =
     (let freqs = freq_grid nf df in
      case (if \<not> discrete_ft then continuous_inv nf freqs patch_c patch_w filter_factor
            else discrete_inv df (zip patch_c patch_w)) of
        Inl e \<Rightarrow> Inl e
      | Inr M \<Rightarrow> if zero_flags then zero_flagged nf flags M else Inr M)"

text \<open>
  Line 24: the key. \<^verbatim>\<open>freqs[1]-freqs[0]\<close> is read from the regenerated grid, and the
  three variable-length parts are concatenated onto the five fixed entries.
\<close>

definition wkey :: "nat \<Rightarrow> real \<Rightarrow> real list \<Rightarrow> real list \<Rightarrow> real \<Rightarrow> bool \<Rightarrow> bool list \<Rightarrow> bool \<Rightarrow> key" where
  "wkey nf df patch_c patch_w filter_factor zero_flags flags discrete_ft =
     (let freqs = freq_grid nf df in
      [real nf, freqs ! 1 - freqs ! 0, filter_factor, of_bool zero_flags, of_bool discrete_ft]
        @ map real (where_true flags) @ patch_c @ patch_w)"

text \<open>
  \<^verbatim>\<open>linear_filter_matrix\<close>, lines 7 to 51. \<^verbatim>\<open>np.linalg.pinv\<close> is a parameter. The
  argument \<open>cache\<close> is taken and never read: lines 26, 49 and 51 name \<^verbatim>\<open>WMAT_CACHE\<close>.
  With fewer than two channels \<^verbatim>\<open>freqs[1]\<close> on line 24 is an IndexError. The result is
  the address of the stored matrix.
\<close>

definition linear_filter_matrix ::
  "(matrix \<Rightarrow> matrix) \<Rightarrow> nat \<Rightarrow> real \<Rightarrow> addr \<Rightarrow> addr \<Rightarrow> real \<Rightarrow> bool \<Rightarrow> addr \<Rightarrow> addr \<Rightarrow> bool
     \<Rightarrow> heap \<Rightarrow> addr result" where
  "linear_filter_matrix pinv nf df patch_c patch_w filter_factor zero_flags flags cache discrete_ft h =
     (if nf < 2 then (Inl IndexError, h)
      else case (get_bools h flags, get_list h patch_c, get_list h patch_w, get_dict h WMAT_CACHE) of
        (Inr fl, Inr pc, Inr pw, Inr d) \<Rightarrow>
          (let k = wkey nf df pc pw filter_factor zero_flags fl discrete_ft in
           case d k of
             Some m \<Rightarrow> (Inr m, h)
           | None \<Rightarrow>
               (case filter_mat_inv nf df pc pw filter_factor zero_flags fl discrete_ft of
                  Inl e \<Rightarrow> (Inl e, h)
                | Inr M \<Rightarrow>
                    (let (m, h1) = alloc (Matrix (pinv M)) h;
                         h2 = h1\<lparr>objs := (objs h1)(WMAT_CACHE \<mapsto> Dict (d(k \<mapsto> m)))\<rparr>
                     in (Inr m, h2))))
      | _ \<Rightarrow> (Inl TypeError, h))"

section \<open>The pipeline\<close>

text \<open>
  Line 82, \<^verbatim>\<open>taper /= np.sqrt((taper*taper).mean())\<close>. The window generator
  \<^verbatim>\<open>scipy.signal.windows.get_window\<close> is a parameter of the pipeline: it maps a name and a
  length to a fresh array, or raises.
\<close>

definition normalise :: "real list \<Rightarrow> real list" where
  "normalise taper =
     map (\<lambda>x. x / sqrt (sum_list (map (\<lambda>t. t * t) taper) / real (length taper))) taper"

text \<open>
  Lines 84 to 91. The result is \<open>None\<close> when neither branch binds \<^verbatim>\<open>wmat\<close>. In mode
  \<^verbatim>\<open>"WTL"\<close> the argument \<^verbatim>\<open>df = freqs[1]-freqs[0]\<close> is an IndexError on fewer than two
  channels, and \<^verbatim>\<open>discrete_ft\<close> keeps its default.
\<close>

definition weight_operator ::
  "(matrix \<Rightarrow> matrix) \<Rightarrow> real list \<Rightarrow> addr \<Rightarrow> real \<Rightarrow> addr \<Rightarrow> addr \<Rightarrow> string \<Rightarrow> bool \<Rightarrow> addr
     \<Rightarrow> heap \<Rightarrow> matrix option result" where
  "weight_operator pinv fs flags filter_factor patch_c patch_w weights zero_flags cache h =
     (let nf = length fs in
      if weights = ''I'' then
        (if zero_flags then
           (case get_bools h flags of
              Inl e \<Rightarrow> (Inl e, h)
            | Inr fl \<Rightarrow>
                (case zero_flagged nf fl (identity nf) of
                   Inl e \<Rightarrow> (Inl e, h)
                 | Inr W \<Rightarrow> (Inr (Some W), h)))
         else (Inr (Some (identity nf)), h))
      else if weights = ''WTL'' then
        (if nf < 2 then (Inl IndexError, h)
         else
           (case linear_filter_matrix pinv nf (fs ! 1 - fs ! 0) patch_c patch_w filter_factor
                   zero_flags flags cache False h of
              (Inl e, h1) \<Rightarrow> (Inl e, h1)
            | (Inr m, h1) \<Rightarrow>
                (case get_matrix h1 m of
                   Inl e \<Rightarrow> (Inl e, h1)
                 | Inr W \<Rightarrow> (Inr (Some W), h1))))
      else (Inr None, h))"

text \<open>Lines 92 to 94: \<^verbatim>\<open>fft.fft(np.dot(wmat, ydata) * taper)\<close>.\<close>

definition forward :: "matrix \<Rightarrow> complex list \<Rightarrow> real list \<Rightarrow> error + complex list" where
  "forward wmat y taper =
     (case dot wmat y of
        Inl e \<Rightarrow> Inl e
      | Inr weighted \<Rightarrow>
          (case elementwise (\<lambda>z t. z * of_real t) weighted taper of
             Inl e \<Rightarrow> Inl e
           | Inr tapered \<Rightarrow> fft tapered))"

text \<open>Line 108: \<^verbatim>\<open>fft.ifft(output)/taper\<close>.\<close>

definition backward :: "complex list \<Rightarrow> real list \<Rightarrow> error + complex list" where
  "backward transformed taper =
     (case ifft transformed of
        Inl e \<Rightarrow> Inl e
      | Inr z \<Rightarrow> elementwise (\<lambda>z t. z / of_real t) z taper)"

text \<open>Line 111: \<^verbatim>\<open>np.arange(-nf/2,nf/2)/((freqs[1]-freqs[0]) * nf)\<close>.\<close>

definition delay_axis :: "real list \<Rightarrow> real list" where
  "delay_axis fs =
     map (\<lambda>a. a / ((fs ! 1 - fs ! 0) * real (length fs))) (arange_sym (length fs))"

text \<open>
  \<^verbatim>\<open>dedekind\<close>, lines 54 to 114. It returns the addresses of the axis and of the output.
  With \<^verbatim>\<open>output_domain == 'frequency'\<close> the axis is the caller's own \<^verbatim>\<open>freqs\<close> object.
\<close>

definition dedekind ::
  "(matrix \<Rightarrow> matrix) \<Rightarrow> (string \<Rightarrow> nat \<Rightarrow> error + real list) \<Rightarrow> addr \<Rightarrow> addr \<Rightarrow> addr \<Rightarrow> real
     \<Rightarrow> addr \<Rightarrow> addr \<Rightarrow> string \<Rightarrow> bool \<Rightarrow> string \<Rightarrow> string \<Rightarrow> addr \<Rightarrow> heap
     \<Rightarrow> (addr \<times> addr) result" where
  "dedekind pinv get_window freqs ydata flags filter_factor patch_c patch_w weights zero_flags
       output_domain taper cache h =
     (case get_floats h freqs of
        Inl e \<Rightarrow> (Inl e, h)
      | Inr fs \<Rightarrow>
     (case get_window taper (length fs) of
        Inl e \<Rightarrow> (Inl e, h)
      | Inr window \<Rightarrow>
     (case weight_operator pinv fs flags filter_factor patch_c patch_w weights zero_flags cache h of
        (Inl e, h1) \<Rightarrow> (Inl e, h1)
      | (Inr None, h1) \<Rightarrow> (Inl UnboundLocalError, h1)
      | (Inr (Some wmat), h1) \<Rightarrow>
     (case get_complexes h1 ydata of
        Inl e \<Rightarrow> (Inl e, h1)
      | Inr y \<Rightarrow>
     (case forward wmat y (normalise window) of
        Inl e \<Rightarrow> (Inl e, h1)
      | Inr transformed \<Rightarrow>
          if output_domain = ''frequency'' then
            (case backward transformed (normalise window) of
               Inl e \<Rightarrow> (Inl e, h1)
             | Inr output \<Rightarrow>
                 (let (out, h2) = alloc (ComplexArray output) h1 in (Inr (freqs, out), h2)))
          else if length fs < 2 then (Inl IndexError, h1)
          else
            (let (x, h2) = alloc (FloatArray (delay_axis fs)) h1;
                 (out, h3) = alloc (ComplexArray (fftshift transformed)) h2
             in (Inr (x, out), h3)))))))"

section \<open>Closed forms and concrete collaborators\<close>

text \<open>
  What the code computes for one patch \<open>(c, w)\<close>: the difference is taken as column minus
  row, \<open>freqs[j] - freqs[i]\<close>.
\<close>

definition one_patch_entry :: "nat \<Rightarrow> real \<Rightarrow> real \<Rightarrow> real \<Rightarrow> real \<Rightarrow> nat \<Rightarrow> nat \<Rightarrow> complex" where
  "one_patch_entry nf df c w filter_factor i j =
     (let d = freq_grid nf df ! j - freq_grid nf df ! i in
      (if i = j then 1 else 0)
       + of_real (sinc (2 * d * w)) * exp (- 2 * \<i> * of_real pi * of_real d * of_real c)
           / of_real filter_factor)"

text \<open>
  The specification's formula for continuous mode, in its own words: the identity plus, for
  each patch \<open>(c, w)\<close>, \<open>sinc(2\<cdot>\<Delta>f[i,j]\<cdot>w) \<cdot> exp(-2\<pi>i\<cdot>\<Delta>f[i,j]\<cdot>c) / filterFactor\<close> with
  \<open>\<Delta>f[i,j] = freqs[i] - freqs[j]\<close>.
\<close>

definition spec_inv_filter :: "nat \<Rightarrow> real \<Rightarrow> (real \<times> real) list \<Rightarrow> real \<Rightarrow> nat \<Rightarrow> nat \<Rightarrow> complex" where
  "spec_inv_filter nf df patches filter_factor i j =
     (let d = freq_grid nf df ! i - freq_grid nf df ! j in
      (if i = j then 1 else 0)
       + (\<Sum>(c, w)\<leftarrow>patches.
            of_real (sinc (2 * d * w)) * exp (- 2 * \<i> * of_real pi * of_real d * of_real c)
              / of_real filter_factor))"

text \<open>
  A heap for concrete runs: the module's heap with the caller's objects allocated in
  order, at addresses 1, 2, 3 and so on.
\<close>

definition heap_with :: "pyobj list \<Rightarrow> heap" where
  "heap_with vs = fold (\<lambda>v h. snd (alloc v h)) vs module_heap"

text \<open>
  Two collaborators for concrete runs. The Moore-Penrose pseudo-inverse of a diagonal
  matrix inverts its non-zero diagonal entries and keeps the zeros; \<open>pinv_diagonal\<close> does
  so entry by entry (\<open>inverse 0 = 0\<close>), and is used only on diagonal matrices. The window
  \<^verbatim>\<open>'boxcar'\<close> of scipy is all ones; \<open>boxcar_only\<close> knows no other name.
\<close>

definition pinv_diagonal :: "matrix \<Rightarrow> matrix" where
  "pinv_diagonal M = map (map inverse) M"

definition boxcar_only :: "string \<Rightarrow> nat \<Rightarrow> error + real list" where
  "boxcar_only name n = (if name = ''boxcar'' then Inr (replicate n 1) else Inl ValueError)"

text \<open>
  \<^verbatim>\<open>np.linalg.pinv\<close> is documented to compute the Moore-Penrose pseudo-inverse. For
  \<open>n \<times> n\<close> arrays, \<open>X\<close> is the pseudo-inverse of \<open>A\<close> when \<open>AXA = A\<close>, \<open>XAX = X\<close>, and
  \<open>AX\<close> and \<open>XA\<close> are Hermitian; the four conditions are written entry by entry.
\<close>

definition square :: "nat \<Rightarrow> matrix \<Rightarrow> bool" where
  "square n M \<longleftrightarrow> length M = n \<and> (\<forall>row \<in> set M. length row = n)"

definition moore_penrose :: "nat \<Rightarrow> matrix \<Rightarrow> matrix \<Rightarrow> bool" where
  "moore_penrose n A X \<longleftrightarrow>
     square n X
   \<and> (\<forall>r<n. \<forall>c<n. (\<Sum>k<n. \<Sum>l<n. A ! r ! k * X ! k ! l * A ! l ! c) = A ! r ! c)
   \<and> (\<forall>r<n. \<forall>c<n. (\<Sum>k<n. \<Sum>l<n. X ! r ! k * A ! k ! l * X ! l ! c) = X ! r ! c)
   \<and> (\<forall>r<n. \<forall>c<n. (\<Sum>l<n. A ! r ! l * X ! l ! c) = cnj (\<Sum>l<n. A ! c ! l * X ! l ! r))
   \<and> (\<forall>r<n. \<forall>c<n. (\<Sum>l<n. X ! r ! l * A ! l ! c) = cnj (\<Sum>l<n. X ! c ! l * A ! l ! r))"


section \<open>Facts about the numpy operations\<close>

lemmas heap_eval = heap_with_def module_heap_def alloc_def WMAT_CACHE_def
  get_bools_def get_list_def get_dict_def get_floats_def get_complexes_def get_matrix_def

lemma upt_2: "[0..<2] = [0, Suc 0]"
  by (simp add: eval_nat_numeral)

lemma upt_3: "[0..<3] = [0, Suc 0, 2]"
  by (simp add: eval_nat_numeral)

lemma length_arange_sym [simp]: "length (arange_sym n) = n"
  by (simp add: arange_sym_def)

lemma length_freq_grid [simp]: "length (freq_grid nf df) = nf"
  by (simp add: freq_grid_def)

lemma nth_freq_grid: "i < nf \<Longrightarrow> freq_grid nf df ! i = (real i - real nf / 2) * df"
  by (simp add: arange_sym_def freq_grid_def)

lemma sinc_0 [simp]: "sinc 0 = 1"
  by (simp add: sinc_def)

lemma sinc_half: "sinc (1 / 2) = 2 / pi" "sinc (- (1 / 2)) = 2 / pi"
  by (simp_all add: sinc_def)

lemma exp_to_cis: "exp (- 2 * \<i> * of_real pi * of_real d * of_real c) = cis (- 2 * pi * d * c)"
  by (simp add: cis_conv_exp algebra_simps)

lemma madd_zeros_left:
  "length M = n \<Longrightarrow> \<forall>row \<in> set M. length row = n \<Longrightarrow> madd (zeros n) M = M"
  by (auto simp: madd_def zeros_def list_eq_iff_nth_eq)

lemma madd_zeros_identity: "madd (zeros n) (identity n) = identity n"
  by (rule madd_zeros_left) (auto simp: identity_def)

lemma madd_identity_nth:
  "madd (map (\<lambda>i. map (f i) [0..<n]) [0..<n]) (identity n)
     = map (\<lambda>i. map (\<lambda>j. (if i = j then 1 else 0) + f i j) [0..<n]) [0..<n]"
  by (auto simp: madd_def identity_def list_eq_iff_nth_eq)

subsection \<open>The discrete Fourier transform and its inverse\<close>

lemma twiddle_0 [simp]: "twiddle n 0 = 1"
  by (simp add: twiddle_def)

lemma twiddle_add: "twiddle n (j + k) = twiddle n j * twiddle n k"
  by (simp add: twiddle_def exp_add [symmetric] algebra_simps add_divide_distrib)

lemma twiddle_cis: "twiddle n k = cis (2 * pi * real_of_int k / real n)"
  by (simp add: twiddle_def cis_conv_exp algebra_simps)

lemma twiddle_power: "twiddle n (j * int k) = twiddle n j ^ k"
  by (simp add: twiddle_cis DeMoivre algebra_simps)

lemma twiddle_period:
  assumes "0 < n"
  shows "twiddle n (j * int n) = 1"
proof -
  from assms have "2 * pi * real_of_int (j * int n) / real n = 2 * pi * real_of_int j"
    by simp
  then show ?thesis
    by (simp only: twiddle_cis cis_multiple_2pi Ints_of_int)
qed

lemma twiddle_eq_1:
  assumes "0 < n" and "twiddle n j = 1"
  shows "int n dvd j"
proof -
  from assms(2) have "cos (2 * pi * real_of_int j / real n) = 1"
    by (simp add: twiddle_cis complex_eq_iff)
  then obtain k :: int where "2 * pi * real_of_int j / real n = real_of_int k * 2 * pi"
    by (auto simp: cos_one_2pi_int)
  then have "real_of_int j = real_of_int k * real n"
    using assms(1) by (simp add: field_simps)
  then have "j = k * int n"
    by (metis of_int_eq_iff of_int_mult of_int_of_nat_eq)
  then show ?thesis by simp
qed

text \<open>Orthogonality of the roots of unity, by the geometric sum.\<close>

lemma twiddle_sum:
  assumes "m < n" and "l < n"
  shows "(\<Sum>k<n. twiddle n ((int m - int l) * int k)) = (if m = l then of_nat n else 0)"
proof (cases "m = l")
  case True
  then show ?thesis by simp
next
  case False
  let ?x = "twiddle n (int m - int l)"
  have "?x \<noteq> 1"
  proof
    assume "?x = 1"
    then have "int n dvd (int m - int l)"
      using assms by (intro twiddle_eq_1) auto
    then have "int n \<le> \<bar>int m - int l\<bar>"
      using False by (intro zdvd_imp_le) (auto simp: dvd_abs_iff dest: zdvd_imp_le)
    then show False using assms by linarith
  qed
  moreover have "?x ^ n = 1"
    using assms by (simp add: twiddle_power [symmetric] twiddle_period)
  ultimately have "(\<Sum>k<n. ?x ^ k) = 0"
    by (simp add: geometric_sum)
  then show ?thesis
    using False by (simp add: twiddle_power)
qed

lemma length_fft: "fft a = Inr A \<Longrightarrow> length A = length a"
  by (auto simp: fft_def Let_def split: if_splits)

lemma fft_nth_0:
  assumes "fft a = Inr A"
  shows "A ! 0 = (\<Sum>m<length a. a ! m)"
  using assms by (auto simp: fft_def Let_def split: if_splits)

lemma ifft_fft:
  assumes "fft a = Inr A"
  shows "ifft A = Inr a"
proof -
  let ?n = "length a"
  from assms have n: "0 < ?n" and len: "length A = ?n"
    and A: "A = map (\<lambda>k. \<Sum>m<?n. a ! m * twiddle ?n (- int (m * k))) [0..<?n]"
    by (auto simp: fft_def Let_def split: if_splits)
  have "(\<Sum>k<?n. A ! k * twiddle ?n (int (m * k))) / of_nat ?n = a ! m" if m: "m < ?n" for m
  proof -
    have tw: "twiddle ?n (- (int l * int k)) * twiddle ?n (int m * int k)
        = twiddle ?n ((int m - int l) * int k)" for l k
      by (simp add: twiddle_add [symmetric] algebra_simps)
    have "A ! k * twiddle ?n (int (m * k))
        = (\<Sum>l<?n. a ! l * twiddle ?n ((int m - int l) * int k))" if "k < ?n" for k
      using that by (simp add: A sum_distrib_right mult.assoc tw)
    then have "(\<Sum>k<?n. A ! k * twiddle ?n (int (m * k)))
        = (\<Sum>k<?n. \<Sum>l<?n. a ! l * twiddle ?n ((int m - int l) * int k))"
      by simp
    also have "\<dots> = (\<Sum>l<?n. a ! l * (\<Sum>k<?n. twiddle ?n ((int m - int l) * int k)))"
      by (subst sum.swap) (simp add: sum_distrib_left)
    also have "\<dots> = (\<Sum>l<?n. if m = l then a ! l * of_nat ?n else 0)"
      by (rule sum.cong) (use m in \<open>auto simp: twiddle_sum\<close>)
    also have "\<dots> = a ! m * of_nat ?n"
      using m by simp
    finally show ?thesis using n by simp
  qed
  then have "map (\<lambda>m. (\<Sum>k<?n. A ! k * twiddle ?n (int (m * k))) / of_nat ?n) [0..<?n] = a"
    by (intro nth_equalityI) simp_all
  moreover have "ifft A
      = Inr (map (\<lambda>m. (\<Sum>k<?n. A ! k * twiddle ?n (int (m * k))) / of_nat ?n) [0..<?n])"
    using n len by (simp add: ifft_def Let_def)
  ultimately show ?thesis by simp
qed

section \<open>The builder: what is pseudo-inverted\<close>

lemma patch_loop_skip:
  "filter_factor \<le> 0 \<Longrightarrow> patch_loop nf freqs pc pw filter_factor ps M = Inr M"
  by (induction ps arbitrary: M) auto

lemma continuous_inv_all_pass:
  assumes "patch_c = [] \<or> patch_w = [] \<or> filter_factor \<le> 0" and "length freqs = nf"
  shows "continuous_inv nf freqs patch_c patch_w filter_factor = Inr (identity nf)"
  using assms by (auto simp: continuous_inv_def patch_loop_skip madd_zeros_identity)

lemma filter_mat_inv_all_pass:
  assumes "patch_c = [] \<or> patch_w = [] \<or> filter_factor \<le> 0"
    and "zero_flags \<longrightarrow> length flags = nf"
  shows "filter_mat_inv nf df patch_c patch_w filter_factor zero_flags flags False
           = Inr (if zero_flags then zero_rows flags (zero_cols flags (identity nf))
                  else identity nf)"
  using assms
  by (auto simp: filter_mat_inv_def continuous_inv_all_pass zero_flagged_def)

lemma patch_matrix_one:
  "patch_matrix nf freqs [c] [w] ff
     = Inr (map (\<lambda>i. map (\<lambda>j. patch_term freqs [c] [w] ff i j) [0..<nf]) [0..<nf])"
  by (simp add: patch_matrix_def broadcastable_def)

lemma continuous_inv_one_patch:
  assumes "0 < filter_factor"
  shows "continuous_inv nf (freq_grid nf df) [c] [w] filter_factor
           = Inr (map (\<lambda>i. map (\<lambda>j. one_patch_entry nf df c w filter_factor i j) [0..<nf])
                    [0..<nf])"
proof -
  let ?T = "map (\<lambda>i. map (\<lambda>j. patch_term (freq_grid nf df) [c] [w] filter_factor i j) [0..<nf])
              [0..<nf]"
  have "madd (zeros nf) ?T = ?T"
    by (rule madd_zeros_left) auto
  then have "continuous_inv nf (freq_grid nf df) [c] [w] filter_factor
      = Inr (madd ?T (identity nf))"
    using assms by (simp add: continuous_inv_def patch_matrix_one)
  also have "madd ?T (identity nf)
      = map (\<lambda>i. map (\<lambda>j. (if i = j then 1 else 0)
                         + patch_term (freq_grid nf df) [c] [w] filter_factor i j) [0..<nf])
          [0..<nf]"
    by (rule madd_identity_nth)
  also have "\<dots> = map (\<lambda>i. map (\<lambda>j. one_patch_entry nf df c w filter_factor i j) [0..<nf])
                     [0..<nf]"
    by (simp add: one_patch_entry_def patch_term_def bcast_def Let_def)
  finally show ?thesis .
qed

text \<open>
  With two or more patches the lists themselves are broadcast against the \<open>nf \<times> nf\<close> grid:
  unless their length happens to be \<open>nf\<close>, line 32 raises.
\<close>

lemma continuous_inv_patch_count:
  assumes "0 < filter_factor" and "patch_c \<noteq> []" and "patch_w \<noteq> []"
    and "\<not> broadcastable nf patch_w \<or> \<not> broadcastable nf patch_c"
  shows "continuous_inv nf freqs patch_c patch_w filter_factor = Inl ValueError"
proof -
  from assms(2,3) obtain cp cw ps where "zip patch_c patch_w = (cp, cw) # ps"
    by (cases patch_c; cases patch_w) auto
  then show ?thesis
    using assms(1,4) by (auto simp: continuous_inv_def patch_matrix_def)
qed

lemma freq_grid_2: "freq_grid 2 df = [- df, 0]"
  by (simp add: freq_grid_def arange_sym_def upt_2)

lemma quarter_patch_entries:
  "one_patch_entry 2 1 (1 / 4) (1 / 4) 1 0 0 = 2"
  "one_patch_entry 2 1 (1 / 4) (1 / 4) 1 0 (Suc 0) = - (2 * \<i> / of_real pi)"
  "one_patch_entry 2 1 (1 / 4) (1 / 4) 1 (Suc 0) 0 = 2 * \<i> / of_real pi"
  "one_patch_entry 2 1 (1 / 4) (1 / 4) 1 (Suc 0) (Suc 0) = 2"
  unfolding one_patch_entry_def freq_grid_2 exp_to_cis Let_def
  by (simp_all add: sinc_half)

lemma quarter_patch_spec:
  "spec_inv_filter 2 1 [(1 / 4, 1 / 4)] 1 0 (Suc 0) = 2 * \<i> / of_real pi"
  unfolding spec_inv_filter_def freq_grid_2 exp_to_cis Let_def
  by (simp add: sinc_half)

text \<open>
  Claim C1, as stated: in continuous mode with \<open>filterFactor > 0\<close> the inverse-filter
  matrix is the identity plus, for each patch \<open>(c, w)\<close>, the term
  \<open>sinc(2(freqs[i]-freqs[j])w) exp(-2\<pi>i(freqs[i]-freqs[j])c) / filterFactor\<close>. It fails
  already for one patch: with two channels of spacing 1, the patch \<open>(1/4, 1/4)\<close> and
  \<open>filterFactor = 1\<close> the code's entry \<open>(0, 1)\<close> is \<open>-2i/\<pi>\<close>, the formula's is \<open>2i/\<pi>\<close>.
\<close>

theorem inv_filter_orientation_counterexample:
  "filter_mat_inv 2 1 [1 / 4] [1 / 4] 1 False [False, False] False
     = Inr [[2, - (2 * \<i> / of_real pi)], [2 * \<i> / of_real pi, 2]]
   \<and> spec_inv_filter 2 1 [(1 / 4, 1 / 4)] 1 0 1 = 2 * \<i> / of_real pi
   \<and> [[2, - (2 * \<i> / of_real pi)], [2 * \<i> / of_real pi, 2]] ! 0 ! 1
       \<noteq> spec_inv_filter 2 1 [(1 / 4, 1 / 4)] 1 0 1"
  by (simp add: filter_mat_inv_def continuous_inv_one_patch quarter_patch_entries
      quarter_patch_spec upt_2)

text \<open>
  Claim C1, amended: in continuous mode with \<open>filterFactor > 0\<close> and exactly one patch
  \<open>(c, w)\<close>, entry \<open>(i, j)\<close> of the inverse-filter matrix is the identity's entry plus
  \<open>sinc(2 d w) exp(-2\<pi>i d c) / filterFactor\<close> with \<open>d = freqs[j] - freqs[i]\<close> (column
  minus row), where \<open>freqs[i] = (i - nf/2) df\<close>.
\<close>

theorem inv_filter_one_patch:
  assumes "0 < filter_factor"
  shows "filter_mat_inv nf df [c] [w] filter_factor False flags False
           = Inr (map (\<lambda>i. map (\<lambda>j. one_patch_entry nf df c w filter_factor i j) [0..<nf])
                    [0..<nf])
       \<and> (\<forall>i<nf. freq_grid nf df ! i = (real i - real nf / 2) * df)"
  using assms by (simp add: filter_mat_inv_def continuous_inv_one_patch nth_freq_grid)

theorem inv_filter_one_patch_witness:
  "filter_mat_inv 2 1 [1 / 4] [1 / 4] 1 False [False, False] False
           = Inr [[2, - (2 * \<i> / of_real pi)], [2 * \<i> / of_real pi, 2]]
   \<and> freq_grid 2 1 ! 0 = - 1 \<and> freq_grid 2 1 ! 1 = 0"
  using inv_filter_one_patch [of 1 2 1 "1 / 4" "1 / 4" "[False, False]"]
  by (simp add: quarter_patch_entries upt_2)

section \<open>The builder: cache and errors\<close>

lemma wkey_2_unflagged:
  "wkey 2 df pc pw ff zf [False, False] dft = [2, df, ff, of_bool zf, of_bool dft] @ pc @ pw"
  by (simp add: wkey_def freq_grid_2 where_true_def upt_2)

lemma linear_filter_matrix_miss:
  assumes "2 \<le> nf"
    and "get_bools h flags = Inr fl" and "get_list h patch_c = Inr pc"
    and "get_list h patch_w = Inr pw" and "get_dict h WMAT_CACHE = Inr d"
    and "d (wkey nf df pc pw filter_factor zero_flags fl discrete_ft) = None"
    and "filter_mat_inv nf df pc pw filter_factor zero_flags fl discrete_ft = Inr M"
  shows "linear_filter_matrix pinv nf df patch_c patch_w filter_factor zero_flags flags cache
           discrete_ft h
         = (Inr (fresh h),
            \<lparr>objs = (objs h)(fresh h \<mapsto> Matrix (pinv M),
                 WMAT_CACHE \<mapsto> Dict (d(wkey nf df pc pw filter_factor zero_flags fl discrete_ft
                                      \<mapsto> fresh h))),
             fresh = Suc (fresh h)\<rparr>)"
  using assms by (simp add: linear_filter_matrix_def alloc_def Let_def)

lemma linear_filter_matrix_hit:
  assumes "2 \<le> nf"
    and "get_bools h flags = Inr fl" and "get_list h patch_c = Inr pc"
    and "get_list h patch_w = Inr pw" and "get_dict h WMAT_CACHE = Inr d"
    and "d (wkey nf df pc pw filter_factor zero_flags fl discrete_ft) = Some m"
  shows "linear_filter_matrix pinv nf df patch_c patch_w filter_factor zero_flags flags cache
           discrete_ft h = (Inr m, h)"
  using assms by (simp add: linear_filter_matrix_def)

text \<open>
  Claim C8, as stated: in continuous mode an empty patch list or \<open>filterFactor \<le> 0\<close>
  raises no error. With one channel, which the builder's contract admits (\<open>nf > 0\<close>), the
  key of line 24 reads \<^verbatim>\<open>freqs[1]\<close> and the call ends in an IndexError.
\<close>

theorem all_pass_single_channel_counterexample:
  "linear_filter_matrix pinv_diagonal 1 1 2 2 0 False 1 WMAT_CACHE False
         (heap_with [BoolArray [False], PyList []])
       = (Inl IndexError, heap_with [BoolArray [False], PyList []])"
  by (simp add: linear_filter_matrix_def)

text \<open>
  Claim C8, amended: in continuous mode with at least two channels, flags of length \<open>nf\<close>
  when \<open>zero_flags\<close> is set, and an empty patch list or \<open>filterFactor \<le> 0\<close>, the
  suppression term is skipped: the array handed to the pseudo-inverse is the identity, with
  the flagged rows and columns zeroed when \<open>zero_flags\<close> is set, and a call whose key is not
  yet cached raises no error and returns the pseudo-inverse of that array.
\<close>

theorem all_pass_builder:
  assumes "2 \<le> nf"
    and "get_bools h flags = Inr fl" and "get_list h patch_c = Inr pc"
    and "get_list h patch_w = Inr pw" and "get_dict h WMAT_CACHE = Inr d"
    and "d (wkey nf df pc pw filter_factor zero_flags fl False) = None"
    and "WMAT_CACHE < fresh h"
    and "zero_flags \<longrightarrow> length fl = nf"
    and "pc = [] \<or> pw = [] \<or> filter_factor \<le> 0"
  shows "filter_mat_inv nf df pc pw filter_factor zero_flags fl False
           = Inr (if zero_flags then zero_rows fl (zero_cols fl (identity nf)) else identity nf)
       \<and> (\<exists>m h'. linear_filter_matrix pinv nf df patch_c patch_w filter_factor zero_flags flags
                   cache False h = (Inr m, h')
            \<and> get_matrix h' m = Inr (pinv
                (if zero_flags then zero_rows fl (zero_cols fl (identity nf)) else identity nf)))"
proof -
  have inv: "filter_mat_inv nf df pc pw filter_factor zero_flags fl False
           = Inr (if zero_flags then zero_rows fl (zero_cols fl (identity nf)) else identity nf)"
    using assms(8,9) by (simp add: filter_mat_inv_all_pass)
  have "\<exists>m h'. linear_filter_matrix pinv nf df patch_c patch_w filter_factor zero_flags flags
                   cache False h = (Inr m, h')
            \<and> get_matrix h' m = Inr (pinv
                (if zero_flags then zero_rows fl (zero_cols fl (identity nf)) else identity nf))"
    using linear_filter_matrix_miss [OF assms(1-6) inv] assms(7)
    by (simp add: get_matrix_def)
  with inv show ?thesis by simp
qed

theorem all_pass_builder_witness:
  "filter_mat_inv 2 1 [] [] (- 1) True [True, False] False = Inr [[0, 0], [0, 1]]
   \<and> (\<exists>m h'. linear_filter_matrix pinv_diagonal 2 1 2 2 (- 1) True 1 WMAT_CACHE False
               (heap_with [BoolArray [True, False], PyList []]) = (Inr m, h')
        \<and> get_matrix h' m = Inr (pinv_diagonal [[0, 0], [0, 1]]))"
  using all_pass_builder [where nf = 2 and h = "heap_with [BoolArray [True, False], PyList []]"
      and flags = 1 and fl = "[True, False]" and patch_c = 2 and pc = "[]" and patch_w = 2
      and pw = "[]" and d = Map.empty and df = 1 and filter_factor = "- 1" and zero_flags = True
      and pinv = pinv_diagonal and cache = WMAT_CACHE]
  by (simp add: heap_eval zero_rows_def zero_cols_def identity_def upt_2)

text \<open>
  Claim C2: in discrete mode the builder returns the pseudo-inverse of
  \<open>F \<cdot> diag(d) \<cdot> conj(F)\<^sup>T\<close> and completes without raising. The code ends in a NameError:
  here for two channels of spacing 1, the patch \<open>(0, 1)\<close> and \<open>filterFactor = 0.001\<close>, on
  the module's fresh cache.
\<close>

theorem discrete_mode_name_error:
  "linear_filter_matrix pinv_diagonal 2 1 2 3 (1 / 1000) False 1 WMAT_CACHE True
         (heap_with [BoolArray [False, False], PyList [0], PyList [1]])
       = (Inl NameError, heap_with [BoolArray [False, False], PyList [0], PyList [1]])"
  by (simp add: linear_filter_matrix_def heap_eval filter_mat_inv_def discrete_inv_def)

text \<open>No discrete-mode call ever builds: a matrix it returns was in the cache before.\<close>

lemma discrete_mode_never_builds:
  assumes "linear_filter_matrix pinv nf df patch_c patch_w filter_factor zero_flags flags cache
             True h = (Inr m, h')"
  shows "h' = h \<and> (\<exists>d k. get_dict h WMAT_CACHE = Inr d \<and> d k = Some m)"
  using assms
  by (auto simp: linear_filter_matrix_def filter_mat_inv_def discrete_inv_def Let_def
      split: if_splits sum.splits option.splits)



text \<open>
  Claim C4: a caller's own mapping, passed as \<open>cache\<close>, is where the builder looks up and
  stores, and the module's cache stays as it was. The code does the opposite: the private
  dictionary at address 3 is still empty after the call, and the new matrix is stored in
  \<^verbatim>\<open>WMAT_CACHE\<close>.
\<close>

theorem private_cache_ignored:
  "(let h = heap_with [BoolArray [False, False], PyList [], Dict Map.empty];
        r = linear_filter_matrix pinv_diagonal 2 1 2 2 0 False 1 3 False h
    in get_dict h 3 = Inr Map.empty \<and> get_dict h WMAT_CACHE = Inr Map.empty
       \<and> fst r = Inr 4
       \<and> get_dict (snd r) 3 = Inr Map.empty
       \<and> get_dict (snd r) WMAT_CACHE = Inr (Map.empty([2, 1, 0, 0, 0] \<mapsto> 4)))"
proof -
  let ?h = "heap_with [BoolArray [False, False], PyList [], Dict Map.empty]"
  have inv: "filter_mat_inv 2 1 [] [] 0 False [False, False] False = Inr (identity 2)"
    by (simp add: filter_mat_inv_all_pass)
  have r: "linear_filter_matrix pinv_diagonal 2 1 2 2 0 False 1 3 False ?h = (Inr 4,
      \<lparr>objs = (objs ?h)(4 \<mapsto> Matrix (pinv_diagonal (identity 2)),
           WMAT_CACHE \<mapsto> Dict (Map.empty([2, 1, 0, 0, 0] \<mapsto> 4))),
       fresh = 5\<rparr>)"
    using linear_filter_matrix_miss [where h = ?h and nf = 2 and flags = 1
        and fl = "[False, False]" and patch_c = 2 and patch_w = 2 and pc = "[]" and pw = "[]"
        and d = Map.empty and df = 1 and filter_factor = 0 and zero_flags = False
        and discrete_ft = False and pinv = pinv_diagonal and cache = 3, OF _ _ _ _ _ _ inv]
    by (simp add: heap_eval wkey_2_unflagged) (simp add: eval_nat_numeral)
  show ?thesis
    unfolding Let_def r fst_conv snd_conv by (simp add: heap_eval)
qed

section \<open>The pipeline: transforms and weights\<close>

lemma ncols_identity [simp]: "ncols (identity n) = n"
  by (cases n) (simp_all add: ncols_def identity_def upt_conv_Cons del: upt_Suc)

lemma dot_identity:
  assumes "length y = n"
  shows "dot (identity n) y = Inr y"
proof -
  have "(\<Sum>k<n. (if i = k then 1 else 0) * y ! k) = y ! i" if "i < n" for i
    using that by (simp add: if_distrib [of "\<lambda>c. c * _"] cong: if_cong)
  then have "map (\<lambda>row. \<Sum>k<n. row ! k * y ! k) (identity n) = y"
    using assms by (intro nth_equalityI) (simp_all add: identity_def)
  then show ?thesis
    using assms by (simp add: dot_def)
qed

lemma length_normalise [simp]: "length (normalise w) = length w"
  by (simp add: normalise_def)

lemma sum_list_squares_pos:
  assumes "w \<noteq> []" and "\<forall>t \<in> set w. t \<noteq> (0 :: real)"
  shows "0 < sum_list (map (\<lambda>t. t * t) w)"
  using assms
proof (induction w)
  case Nil
  then show ?case by simp
next
  case (Cons a w)
  have "0 < a * a" using Cons.prems by (auto simp: zero_less_mult_iff)
  moreover have "0 \<le> sum_list (map (\<lambda>t. t * t) w)"
    by (rule sum_list_nonneg) auto
  ultimately show ?case by simp
qed

lemma normalise_nonzero:
  assumes "\<forall>t \<in> set w. t \<noteq> 0"
  shows "\<forall>t \<in> set (normalise w). t \<noteq> 0"
proof (cases "w = []")
  case True
  then show ?thesis by (simp add: normalise_def)
next
  case False
  then have "0 < sum_list (map (\<lambda>t. t * t) w) / real (length w)"
    using sum_list_squares_pos [OF False assms] by simp
  then have "0 < sqrt (sum_list (map (\<lambda>t. t * t) w) / real (length w))"
    by (simp only: real_sqrt_gt_0_iff)
  then have "sqrt (sum_list (map (\<lambda>t. t * t) w) / real (length w)) \<noteq> 0"
    by linarith
  then show ?thesis
    using assms by (auto simp: normalise_def)
qed

lemma elementwise_same_length:
  "length xs = length ys \<Longrightarrow> elementwise f xs ys = Inr (map2 f xs ys)"
  by (simp add: elementwise_def)

lemma untaper:
  assumes "length v = length tp" and "\<forall>t \<in> set tp. t \<noteq> 0"
  shows "map2 (\<lambda>z t. z / complex_of_real t) (map2 (\<lambda>z t. z * complex_of_real t) v tp) tp = v"
  using assms by (intro nth_equalityI) (auto simp: set_conv_nth)

lemma backward_forward:
  assumes "dot W y = Inr v" and "length tp = length v" and "v \<noteq> []"
    and "\<forall>t \<in> set tp. t \<noteq> 0"
  shows "\<exists>T. forward W y tp = Inr T \<and> backward T tp = Inr v"
proof -
  let ?z = "map2 (\<lambda>z t. z * complex_of_real t) v tp"
  have "?z \<noteq> []" using assms(2,3) by (cases v; cases tp) auto
  then obtain T where T: "fft ?z = Inr T"
    by (auto simp: fft_def Let_def)
  then have "ifft T = Inr ?z" by (rule ifft_fft)
  moreover have "forward W y tp = Inr T"
    using assms(1,2) T by (simp add: forward_def elementwise_same_length)
  moreover have "elementwise (\<lambda>z t. z / complex_of_real t) ?z tp = Inr v"
    using assms(2,4) by (simp add: elementwise_same_length untaper)
  ultimately show ?thesis
    by (simp add: backward_def)
qed

lemma fftshift_middle:
  assumes "xs \<noteq> []"
  shows "fftshift xs ! (length xs div 2) = xs ! 0"
proof -
  let ?p = "(length xs + 1) div 2"
  have "length (drop ?p xs) = length xs div 2" by simp
  moreover have "0 < ?p" using assms by (cases xs) auto
  ultimately show ?thesis
    by (simp add: fftshift_def Let_def nth_append)
qed

lemma length_fftshift [simp]: "length (fftshift xs) = length xs"
  by (auto simp: fftshift_def Let_def)

lemma weight_operator_I:
  "weight_operator pinv fs flags ff pc pw ''I'' False cache h = (Inr (Some (identity (length fs))), h)"
  by (simp add: weight_operator_def)

lemma weight_operator_unsupported:
  "weights \<noteq> ''I'' \<Longrightarrow> weights \<noteq> ''WTL'' \<Longrightarrow>
   weight_operator pinv fs flags ff pc pw weights zf cache h = (Inr None, h)"
  by (simp add: weight_operator_def)

lemma dedekind_frequency:
  assumes "get_floats h freqs = Inr fs" and "get_window taper (length fs) = Inr win"
    and "weight_operator pinv fs flags ff pc pw weights zf cache h = (Inr (Some W), h1)"
    and "get_complexes h1 ydata = Inr y" and "dot W y = Inr v"
    and "length win = length v" and "v \<noteq> []" and "\<forall>t \<in> set win. t \<noteq> 0"
  shows "dedekind pinv get_window freqs ydata flags ff pc pw weights zf ''frequency'' taper cache h
         = (Inr (freqs, fresh h1),
            \<lparr>objs = (objs h1)(fresh h1 \<mapsto> ComplexArray v), fresh = Suc (fresh h1)\<rparr>)"
proof -
  obtain T where "forward W y (normalise win) = Inr T" and "backward T (normalise win) = Inr v"
    using backward_forward [OF assms(5), of "normalise win"] assms(6,7) normalise_nonzero [OF assms(8)]
    by auto
  then show ?thesis
    using assms(1-4) by (simp add: dedekind_def alloc_def)
qed

lemma dedekind_delay:
  assumes "get_floats h freqs = Inr fs" and "get_window taper (length fs) = Inr win"
    and "weight_operator pinv fs flags ff pc pw weights zf cache h = (Inr (Some W), h1)"
    and "get_complexes h1 ydata = Inr y" and "forward W y (normalise win) = Inr T"
    and "od \<noteq> ''frequency''" and "2 \<le> length fs"
  shows "dedekind pinv get_window freqs ydata flags ff pc pw weights zf od taper cache h
         = (Inr (fresh h1, Suc (fresh h1)),
            \<lparr>objs = (objs h1)(fresh h1 \<mapsto> FloatArray (delay_axis fs),
                               Suc (fresh h1) \<mapsto> ComplexArray (fftshift T)),
             fresh = Suc (Suc (fresh h1))\<rparr>)"
  using assms by (simp add: dedekind_def alloc_def)

lemma identity_3: "identity 3 = [[1, 0, 0], [0, 1, 0], [0, 0, 1]]"
  by (simp add: identity_def upt_3)

lemma pinv_diagonal_identity: "pinv_diagonal (identity n) = identity n"
  by (simp add: pinv_diagonal_def identity_def if_distrib [of inverse] cong: if_cong)

lemma freq_grid_3: "freq_grid 3 df = [- (3 * df / 2), - (df / 2), df / 2]"
  by (simp add: freq_grid_def arange_sym_def upt_3 algebra_simps)

text \<open>Flagged channels 0 and 1 without patches, and no flags with the patch \<open>(0, 1)\<close>:
  one key.\<close>

lemma wkey_collision:
  "wkey 3 df [] [] ff zf [True, True, False] dft = [3, df, ff, of_bool zf, of_bool dft, 0, 1]"
  "wkey 3 df [0] [1] ff zf [False, False, False] dft = [3, df, ff, of_bool zf, of_bool dft, 0, 1]"
  by (simp_all add: wkey_def freq_grid_3 where_true_def upt_3)

lemma weight_operator_WTL:
  assumes "length fs = nf" and "fs ! 1 - fs ! 0 = df" and "2 \<le> nf"
    and "linear_filter_matrix pinv nf df pc pw ff zf flags cache False h = (Inr m, h1)"
    and "get_matrix h1 m = Inr W"
  shows "weight_operator pinv fs flags ff pc pw ''WTL'' zf cache h = (Inr (Some W), h1)"
  using assms by (auto simp: weight_operator_def)

section \<open>The pipeline: claims\<close>

text \<open>
  Claim C7: with \<^verbatim>\<open>weights="I"\<close>, \<^verbatim>\<open>zero_flags=False\<close> and
  \<^verbatim>\<open>output_domain="frequency"\<close>, for data as long as the frequency axis (which is not
  empty) and a window without zero entries, the pipeline returns the caller's frequency
  axis, unchanged, and an output equal to the input data: the inverse transform undoes the
  forward transform and the division undoes the taper. In exact arithmetic the equality is
  exact.
\<close>

theorem identity_round_trip:
  assumes "get_floats h freqs = Inr fs" and "get_complexes h ydata = Inr y"
    and "length y = length fs" and "fs \<noteq> []"
    and "get_window taper (length fs) = Inr win" and "length win = length fs"
    and "\<forall>t \<in> set win. t \<noteq> 0" and "freqs < fresh h"
  shows "\<exists>out h'. dedekind pinv get_window freqs ydata flags ff pc pw ''I'' False ''frequency''
                     taper cache h = (Inr (freqs, out), h')
           \<and> get_floats h' freqs = Inr fs \<and> get_complexes h' out = Inr y"
proof -
  have "dot (identity (length fs)) y = Inr y"
    using assms(3) by (rule dot_identity)
  then have "dedekind pinv get_window freqs ydata flags ff pc pw ''I'' False ''frequency''
                     taper cache h
      = (Inr (freqs, fresh h), \<lparr>objs = (objs h)(fresh h \<mapsto> ComplexArray y), fresh = Suc (fresh h)\<rparr>)"
    using assms(1-7)
    by (intro dedekind_frequency [where fs = fs and win = win and y = y
          and W = "identity (length fs)"]) (auto simp: weight_operator_I)
  moreover have "get_floats \<lparr>objs = (objs h)(fresh h \<mapsto> ComplexArray y), fresh = Suc (fresh h)\<rparr> freqs = Inr fs"
    using assms(1,8) by (simp add: get_floats_def)
  ultimately show ?thesis
    by (simp add: get_complexes_def)
qed

theorem identity_round_trip_witness:
  "\<exists>out h'. dedekind pinv_diagonal boxcar_only 1 2 3 (1 / 1000000) 4 5 ''I'' False ''frequency''
       ''boxcar'' WMAT_CACHE
       (heap_with [FloatArray [100, 101], ComplexArray [3, \<i>], BoolArray [False, True],
          PyList [0], PyList [1]]) = (Inr (1, out), h')
     \<and> get_floats h' 1 = Inr [100, 101] \<and> get_complexes h' out = Inr [3, \<i>]"
  by (rule identity_round_trip [where win = "[1, 1]"])
     (simp_all add: heap_eval boxcar_only_def)


text \<open>
  Claim C9: when \<^verbatim>\<open>output_domain\<close> is not \<^verbatim>\<open>"frequency"\<close> and the pipeline returns, the
  axis is \<open>arange(-nf/2, nf/2) / (df \<cdot> nf)\<close> with \<open>df = freqs[1] - freqs[0]\<close>, and the output
  is the shifted forward transform of the weighted, tapered data: the zero-delay component
  (the plain sum of the tapered data) sits at index \<open>n div 2\<close> of the returned sequence.
  The two hypotheses on divisors keep the model inside the reals: the axis is strictly
  monotonic, and the window is not all zero.
\<close>

theorem delay_output:
  assumes "dedekind pinv get_window freqs ydata flags ff pc pw weights zf od taper cache h
             = (Inr (x, out), h')"
    and "od \<noteq> ''frequency''" and "get_floats h freqs = Inr fs"
    and "get_window taper (length fs) = Inr win"
    and "fs ! 1 \<noteq> fs ! 0" and "sum_list (map (\<lambda>t. t * t) win) \<noteq> 0"
  shows "get_floats h' x
           = Inr (map (\<lambda>i. (real i - real (length fs) / 2) / ((fs ! 1 - fs ! 0) * real (length fs)))
                    [0..<length fs])
       \<and> (\<exists>h1 W y weighted tapered T.
            weight_operator pinv fs flags ff pc pw weights zf cache h = (Inr (Some W), h1)
          \<and> get_complexes h1 ydata = Inr y
          \<and> dot W y = Inr weighted
          \<and> elementwise (\<lambda>z t. z * of_real t) weighted (normalise win) = Inr tapered
          \<and> fft tapered = Inr T
          \<and> get_complexes h' out = Inr (fftshift T)
          \<and> fftshift T ! (length T div 2) = T ! 0
          \<and> T ! 0 = (\<Sum>m<length tapered. tapered ! m))"
proof -
  from assms(1-4) obtain h1 W y weighted tapered T where
    w: "weight_operator pinv fs flags ff pc pw weights zf cache h = (Inr (Some W), h1)"
    and y: "get_complexes h1 ydata = Inr y"
    and d: "dot W y = Inr weighted"
    and e: "elementwise (\<lambda>z t. z * of_real t) weighted (normalise win) = Inr tapered"
    and T: "fft tapered = Inr T"
    and n: "2 \<le> length fs"
    and r: "(Inr (x, out), h') = (Inr (fresh h1, Suc (fresh h1)),
            \<lparr>objs = (objs h1)(fresh h1 \<mapsto> FloatArray (delay_axis fs),
                               Suc (fresh h1) \<mapsto> ComplexArray (fftshift T)),
             fresh = Suc (Suc (fresh h1))\<rparr>)"
    by (auto simp: dedekind_def forward_def alloc_def
        split: sum.splits prod.splits option.splits if_splits)
  have "T \<noteq> []" using T by (auto simp: fft_def Let_def split: if_splits)
  then have "fftshift T ! (length T div 2) = T ! 0" by (rule fftshift_middle)
  moreover have "T ! 0 = (\<Sum>m<length tapered. tapered ! m)" using T by (rule fft_nth_0)
  moreover have "get_floats h' x = Inr (delay_axis fs)" "get_complexes h' out = Inr (fftshift T)"
    using r by (auto simp: get_floats_def get_complexes_def)
  moreover have "delay_axis fs = map (\<lambda>i. (real i - real (length fs) / 2) / ((fs ! 1 - fs ! 0) * real (length fs)))
                    [0..<length fs]"
    by (simp add: delay_axis_def arange_sym_def)
  ultimately show ?thesis
    using w y d e T by auto
qed

lemma normalise_ones_2: "normalise [1, 1] = [1, 1]"
  by (simp add: normalise_def)

theorem delay_output_witness:
  "(let r = dedekind pinv_diagonal boxcar_only 1 2 3 (1 / 1000000) 4 5 ''I'' False ''delay''
              ''boxcar'' WMAT_CACHE
              (heap_with [FloatArray [100, 101], ComplexArray [3, \<i>], BoolArray [False, True],
                 PyList [0], PyList [1]])
    in fst r = Inr (6, 7) \<and> get_floats (snd r) 6 = Inr [- (1 / 2), 0]
       \<and> (\<exists>T. get_complexes (snd r) 7 = Inr (fftshift T)
              \<and> fftshift T ! (length T div 2) = T ! 0))"
proof -
  let ?h = "heap_with [FloatArray [100, 101], ComplexArray [3, \<i>], BoolArray [False, True],
                 PyList [0], PyList [1]]"
  let ?r = "dedekind pinv_diagonal boxcar_only 1 2 3 (1 / 1000000) 4 5 ''I'' False ''delay''
              ''boxcar'' WMAT_CACHE ?h"
  have fs: "get_floats ?h 1 = Inr [100, 101]" and y: "get_complexes ?h 2 = Inr [3, \<i>]"
    and fr: "fresh ?h = 6"
    by (simp_all add: heap_eval)
  have win: "boxcar_only ''boxcar'' (length [100 :: real, 101]) = Inr [1, 1]"
    by (simp add: boxcar_only_def)
  obtain T where T: "forward (identity 2) [3, \<i>] (normalise [1, 1]) = Inr T"
    using backward_forward [of "identity 2" "[3, \<i>]" "[3, \<i>]" "normalise [1, 1]"]
    by (auto simp: dot_identity normalise_ones_2)
  have w: "weight_operator pinv_diagonal [100, 101] 3 (1 / 1000000) 4 5 ''I'' False WMAT_CACHE ?h
      = (Inr (Some (identity 2)), ?h)"
    by (simp add: weight_operator_I numeral_2_eq_2)
  have run: "?r = (Inr (6, 7),
       \<lparr>objs = (objs ?h)(6 \<mapsto> FloatArray (delay_axis [100, 101]),
                               7 \<mapsto> ComplexArray (fftshift T)),
             fresh = 8\<rparr>)"
    using dedekind_delay [where od = "''delay''" and get_window = boxcar_only
        and taper = "''boxcar''", OF fs win w y T]
    by (simp add: fr)
  show ?thesis
    using delay_output [OF run _ fs win]
    unfolding Let_def run fst_conv snd_conv
    by (auto simp: upt_2)
qed

lemma linear_filter_matrix_frame:
  assumes "a < fresh h" and "a \<noteq> WMAT_CACHE"
  shows "objs (snd (linear_filter_matrix pinv nf df patch_c patch_w ff zf flags cache dft h)) a
           = objs h a
       \<and> fresh h \<le> fresh (snd (linear_filter_matrix pinv nf df patch_c patch_w ff zf flags cache dft h))"
  using assms
  by (auto simp: linear_filter_matrix_def alloc_def Let_def
      split: sum.splits option.splits)

lemma weight_operator_frame:
  assumes "a < fresh h" and "a \<noteq> WMAT_CACHE"
  shows "objs (snd (weight_operator pinv fs flags ff pc pw weights zf cache h)) a = objs h a
       \<and> fresh h \<le> fresh (snd (weight_operator pinv fs flags ff pc pw weights zf cache h))"
proof -
  let ?l = "linear_filter_matrix pinv (length fs) (fs ! 1 - fs ! 0) pc pw ff zf flags cache False h"
  have "snd (weight_operator pinv fs flags ff pc pw weights zf cache h) = h
      \<or> snd (weight_operator pinv fs flags ff pc pw weights zf cache h) = snd ?l"
    by (auto simp: weight_operator_def Let_def split: sum.splits prod.splits)
  then show ?thesis
    using linear_filter_matrix_frame [OF assms] by auto
qed


text \<open>
  Claim C10: a call of the pipeline, and a call of the builder, leave every object that
  was allocated before the call as it was, the dictionary \<^verbatim>\<open>WMAT_CACHE\<close> apart: in
  particular the arrays and lists passed as \<^verbatim>\<open>freqs\<close>, \<^verbatim>\<open>ydata\<close>, \<^verbatim>\<open>flags\<close>,
  \<^verbatim>\<open>patch_c\<close> and \<^verbatim>\<open>patch_w\<close> hold the same values after the call, whether it returns
  or raises.
\<close>

theorem inputs_unchanged:
  assumes "a < fresh h" and "a \<noteq> WMAT_CACHE"
  shows "objs (snd (dedekind pinv get_window freqs ydata flags ff pc pw weights zf od taper
                      cache h)) a = objs h a
       \<and> objs (snd (linear_filter_matrix pinv nf df pc pw ff zf flags cache dft h)) a = objs h a"
proof -
  let ?d = "dedekind pinv get_window freqs ydata flags ff pc pw weights zf od taper cache h"
  have "objs (snd ?d) a = objs h a"
  proof (cases "get_floats h freqs")
    case (Inl e)
    then show ?thesis by (simp add: dedekind_def)
  next
    case (Inr fs)
    obtain r h1 where w: "weight_operator pinv fs flags ff pc pw weights zf cache h = (r, h1)"
      by (cases "weight_operator pinv fs flags ff pc pw weights zf cache h")
    have "objs h1 a = objs h a" and "a < fresh h1"
      using weight_operator_frame [OF assms, of pinv fs flags ff pc pw weights zf cache] assms(1)
      by (auto simp: w)
    then show ?thesis
      using Inr w
      by (auto simp: dedekind_def alloc_def Let_def split: sum.splits option.splits)
  qed
  then show ?thesis
    using linear_filter_matrix_frame [OF assms] by simp
qed

theorem inputs_unchanged_witness:
  "(let h = heap_with [FloatArray [100, 101], ComplexArray [3, \<i>], BoolArray [False, True],
                 PyList []]
    in objs (snd (dedekind pinv_diagonal boxcar_only 1 2 3 0 4 4 ''WTL'' True ''frequency''
                    ''boxcar'' WMAT_CACHE h)) 2 = Some (ComplexArray [3, \<i>])
     \<and> objs (snd (linear_filter_matrix pinv_diagonal 2 1 4 4 0 True 3 WMAT_CACHE False h)) 2
         = Some (ComplexArray [3, \<i>]))"
  using inputs_unchanged [where a = 2
      and h = "heap_with [FloatArray [100, 101], ComplexArray [3, \<i>], BoolArray [False, True],
                 PyList []]"
      and pinv = pinv_diagonal and get_window = boxcar_only and freqs = 1 and ydata = 2
      and flags = 3 and ff = 0 and pc = 4 and pw = 4 and weights = "''WTL''" and zf = True
      and od = "''frequency''" and taper = "''boxcar''" and cache = WMAT_CACHE
      and nf = 2 and df = 1 and dft = False]
  by (simp add: heap_eval)


lemma forward_empty:
  "forward [] y tp = Inl ValueError"
  by (auto simp: forward_def dot_def ncols_def elementwise_def fft_def)

lemma weight_operator_I_empty:
  "weight_operator pinv [] flags ff pc pw ''I'' zf cache h = (Inr (Some W), h1) \<Longrightarrow> W = [] \<and> h1 = h"
  by (auto simp: weight_operator_def zero_flagged_def identity_def zero_rows_def zero_cols_def
      split: if_splits sum.splits)

lemma weight_operator_I_heap:
  "snd (weight_operator pinv fs flags ff pc pw ''I'' zf cache h) = h"
  by (auto simp: weight_operator_def Let_def split: sum.splits)

lemma weight_operator_I_shape:
  assumes "weight_operator pinv fs flags ff pc pw ''I'' zf cache h = (Inr (Some W), h1)"
  shows "ncols W = length fs"
proof (cases zf)
  case False
  with assms show ?thesis by (auto simp: weight_operator_def)
next
  case True
  with assms obtain fl where fl: "length fl = length fs"
    and W: "W = zero_rows fl (zero_cols fl (identity (length fs)))"
    by (auto simp: weight_operator_def zero_flagged_def Let_def split: sum.splits if_splits)
  show ?thesis
  proof (cases fs)
    case Nil
    with W show ?thesis by (simp add: identity_def zero_rows_def zero_cols_def ncols_def)
  next
    case (Cons a as)
    then obtain b bs where "fl = b # bs" using fl by (cases fl) auto
    with W Cons fl show ?thesis
      by (simp add: identity_def zero_rows_def zero_cols_def ncols_def upt_conv_Cons del: upt_Suc)
  qed
qed


text \<open>
  Claim C6, as stated: unsupported weights, mismatched lengths of data, flags and
  frequencies, and an empty frequency axis all raise a configuration error before any
  computation. The code validates nothing: a flags array of length 1 for two channels is
  accepted in mode \<^verbatim>\<open>"I"\<close> with \<^verbatim>\<open>zero_flags=False\<close>, and the call returns its output.
\<close>

theorem flags_length_unchecked_counterexample:
  "fst (dedekind pinv_diagonal boxcar_only 1 2 3 (1 / 1000000) 4 5 ''I'' False ''frequency''
          ''boxcar'' WMAT_CACHE
          (heap_with [FloatArray [100, 101], ComplexArray [3, \<i>], BoolArray [True],
             PyList [0], PyList [1]]))
     = Inr (1, 6)"
proof -
  let ?h = "heap_with [FloatArray [100, 101], ComplexArray [3, \<i>], BoolArray [True],
                 PyList [0], PyList [1]]"
  have fs: "get_floats ?h 1 = Inr [100, 101]" and y: "get_complexes ?h 2 = Inr [3, \<i>]"
    and fr: "fresh ?h = 6"
    by (simp_all add: heap_eval)
  have win: "boxcar_only ''boxcar'' (length [100 :: real, 101]) = Inr [1, 1]"
    by (simp add: boxcar_only_def)
  have w: "weight_operator pinv_diagonal [100, 101] 3 (1 / 1000000) 4 5 ''I'' False WMAT_CACHE ?h
      = (Inr (Some (identity 2)), ?h)"
    by (simp add: weight_operator_I numeral_2_eq_2)
  have d: "dot (identity 2) [3, \<i>] = Inr [3, \<i>]"
    by (simp add: dot_identity)
  have run: "dedekind pinv_diagonal boxcar_only 1 2 3 (1 / 1000000) 4 5 ''I'' False ''frequency''
              ''boxcar'' WMAT_CACHE ?h
      = (Inr (1, 6), \<lparr>objs = (objs ?h)(6 \<mapsto> ComplexArray [3, \<i>]), fresh = 7\<rparr>)"
    using dedekind_frequency [where get_window = boxcar_only and taper = "''boxcar''",
        OF fs win w y d]
    by (simp add: fr)
  show ?thesis
    unfolding run fst_conv by simp
qed

text \<open>
  Claim C6, amended: for every weights value other than \<^verbatim>\<open>"I"\<close> and \<^verbatim>\<open>"WTL"\<close>, for an
  empty frequency axis, and in mode \<^verbatim>\<open>"I"\<close> for data whose length differs from the number
  of frequencies, the pipeline raises an error, returns no result and leaves the heap as it
  was. The error is that of the first operation that cannot proceed: for unsupported
  weights, once the window has been built, the UnboundLocalError of line 93.
\<close>

theorem bad_configuration_raises:
  assumes "(weights \<noteq> ''I'' \<and> weights \<noteq> ''WTL'')
         \<or> get_floats h freqs = Inr []
         \<or> (weights = ''I'' \<and> (\<exists>fs y. get_floats h freqs = Inr fs \<and> get_complexes h ydata = Inr y
                \<and> length y \<noteq> length fs))"
  shows "(\<exists>e. dedekind pinv get_window freqs ydata flags ff pc pw weights zf od taper cache h
              = (Inl e, h))
       \<and> (weights \<noteq> ''I'' \<and> weights \<noteq> ''WTL''
            \<and> (\<exists>fs win. get_floats h freqs = Inr fs \<and> get_window taper (length fs) = Inr win)
          \<longrightarrow> dedekind pinv get_window freqs ydata flags ff pc pw weights zf od taper cache h
              = (Inl UnboundLocalError, h))"
proof -
  let ?d = "dedekind pinv get_window freqs ydata flags ff pc pw weights zf od taper cache h"
  have unsupported: "\<exists>e. ?d = (Inl e, h)" if "weights \<noteq> ''I''" "weights \<noteq> ''WTL''"
    using that by (auto simp: dedekind_def weight_operator_unsupported split: sum.splits)
  have unbound: "?d = (Inl UnboundLocalError, h)"
    if "weights \<noteq> ''I''" "weights \<noteq> ''WTL''" "get_floats h freqs = Inr fs"
      "get_window taper (length fs) = Inr win" for fs win
    using that by (simp add: dedekind_def weight_operator_unsupported)
  have empty: "\<exists>e. ?d = (Inl e, h)" if fs: "get_floats h freqs = Inr []"
  proof (cases "weights = ''I''")
    case True
    show ?thesis
      using fs True weight_operator_I_heap [of pinv "[]" flags ff pc pw zf cache h]
      by (auto simp: dedekind_def forward_empty split: sum.splits prod.splits option.splits
          dest!: weight_operator_I_empty)
  next
    case False
    show ?thesis
    proof (cases "weights = ''WTL''")
      case True
      then show ?thesis
        using fs by (auto simp: dedekind_def weight_operator_def split: sum.splits)
    next
      case False
      with \<open>weights \<noteq> ''I''\<close> show ?thesis by (rule unsupported)
    qed
  qed
  have mismatch: "\<exists>e. ?d = (Inl e, h)"
    if "weights = ''I''" "get_floats h freqs = Inr fs" "get_complexes h ydata = Inr y"
      "length y \<noteq> length fs" for fs y
  proof -
    have "forward W y tp = Inl ValueError"
      if "weight_operator pinv fs flags ff pc pw ''I'' zf cache h = (Inr (Some W), h1)" for W h1 tp
      using weight_operator_I_shape [OF that] \<open>length y \<noteq> length fs\<close>
      by (simp add: forward_def dot_def)
    then show ?thesis
      using that weight_operator_I_heap [of pinv fs flags ff pc pw zf cache h]
      by (auto simp: dedekind_def split: sum.splits prod.splits option.splits)
  qed
  from assms unsupported empty mismatch have "\<exists>e. ?d = (Inl e, h)" by blast
  with unbound show ?thesis by blast
qed

theorem bad_configuration_raises_witness:
  "dedekind pinv_diagonal boxcar_only 1 2 3 (1 / 1000000) 4 5 ''W'' True ''delay'' ''boxcar''
       WMAT_CACHE
       (heap_with [FloatArray [100, 101], ComplexArray [3, \<i>], BoolArray [False, True],
          PyList [0], PyList [1]])
     = (Inl UnboundLocalError,
        heap_with [FloatArray [100, 101], ComplexArray [3, \<i>], BoolArray [False, True],
          PyList [0], PyList [1]])"
  using bad_configuration_raises [where weights = "''W''" and pinv = pinv_diagonal
      and get_window = boxcar_only and freqs = 1 and ydata = 2 and flags = 3
      and ff = "1 / 1000000" and pc = 4 and pw = 5 and zf = True and od = "''delay''"
      and taper = "''boxcar''" and cache = WMAT_CACHE
      and h = "heap_with [FloatArray [100, 101], ComplexArray [3, \<i>], BoolArray [False, True],
          PyList [0], PyList [1]]"]
  by (simp add: heap_eval boxcar_only_def)

text \<open>
  In mode \<^verbatim>\<open>"I"\<close> with \<^verbatim>\<open>zero_flags\<close> set, data at flagged channels never reaches the
  result: two data arrays that agree on the unflagged channels give the same result,
  returned or raised.
\<close>

lemma masked_identity_nth:
  assumes "length fl = n" and "r < n" and "k < n"
  shows "zero_rows fl (zero_cols fl (identity n)) ! r ! k
           = (if fl ! r \<or> fl ! k then 0 else if r = k then 1 else 0)"
  using assms by (simp add: zero_rows_def zero_cols_def identity_def)

lemma length_masked_identity:
  "length fl = n \<Longrightarrow> length (zero_rows fl (zero_cols fl (identity n))) = n"
  by (simp add: zero_rows_def zero_cols_def identity_def)

lemma dot_masked:
  assumes "length fl = n" and "length y1 = length y2"
    and "\<forall>i<length y1. \<not> fl ! i \<longrightarrow> y1 ! i = y2 ! i"
  shows "dot (zero_rows fl (zero_cols fl (identity n))) y1
           = dot (zero_rows fl (zero_cols fl (identity n))) y2"
proof (cases "ncols (zero_rows fl (zero_cols fl (identity n))) = length y1 \<and> length y1 = n")
  case True
  let ?W = "zero_rows fl (zero_cols fl (identity n))"
  have "(\<Sum>k<n. ?W ! r ! k * y1 ! k) = (\<Sum>k<n. ?W ! r ! k * y2 ! k)" if "r < n" for r
    by (rule sum.cong) (use assms True that in \<open>auto simp: masked_identity_nth\<close>)
  then have "map (\<lambda>row. \<Sum>k<n. row ! k * y1 ! k) ?W = map (\<lambda>row. \<Sum>k<n. row ! k * y2 ! k) ?W"
    using assms(1) by (intro nth_equalityI) (simp_all add: length_masked_identity)
  then show ?thesis
    using True assms(2) by (simp add: dot_def)
next
  case False
  let ?W = "zero_rows fl (zero_cols fl (identity n))"
  have "ncols ?W = n"
  proof (cases n)
    case 0
    then show ?thesis using assms(1) by (simp add: zero_rows_def zero_cols_def identity_def ncols_def)
  next
    case (Suc m)
    then obtain b bs where "fl = b # bs" using assms(1) by (cases fl) auto
    with Suc assms(1) show ?thesis
      by (simp add: identity_def zero_rows_def zero_cols_def ncols_def upt_conv_Cons del: upt_Suc)
  qed
  with False have "ncols ?W \<noteq> length y1" by auto
  then show ?thesis
    using assms(2) by (simp add: dot_def)
qed

lemma mode_I_ignores_flagged_data:
  assumes "get_complexes h ydata1 = Inr y1" and "get_complexes h ydata2 = Inr y2"
    and "get_bools h flags = Inr fl" and "length y1 = length y2"
    and "\<forall>i<length y1. \<not> fl ! i \<longrightarrow> y1 ! i = y2 ! i"
  shows "dedekind pinv get_window freqs ydata1 flags ff pc pw ''I'' True od taper cache h
       = dedekind pinv get_window freqs ydata2 flags ff pc pw ''I'' True od taper cache h"
proof -
  have "forward (zero_rows fl (zero_cols fl (identity n))) y1 tp
      = forward (zero_rows fl (zero_cols fl (identity n))) y2 tp" if "length fl = n" for n tp
    using dot_masked [OF that assms(4,5)] by (simp add: forward_def)
  then show ?thesis
    using assms(1-3)
    by (auto simp: dedekind_def weight_operator_def zero_flagged_def Let_def
        split: sum.splits)
qed

text \<open>
  In mode \<^verbatim>\<open>"WTL"\<close> the same holds for a call that builds its matrix, when the parameter
  \<open>pinv\<close> yields a Moore-Penrose pseudo-inverse of the array it is handed: a zero row of
  that array is a zero column of its pseudo-inverse.
\<close>

lemma moore_penrose_zero_column:
  assumes "moore_penrose n A X" and "i < n" and "\<forall>l<n. A ! i ! l = 0" and "r < n"
  shows "X ! r ! i = 0"
proof -
  have "X ! r ! i = (\<Sum>k<n. \<Sum>l<n. X ! r ! k * A ! k ! l * X ! l ! i)"
    using assms(1,2,4) by (simp add: moore_penrose_def)
  also have "\<dots> = (\<Sum>k<n. X ! r ! k * (\<Sum>l<n. A ! k ! l * X ! l ! i))"
    by (simp add: sum_distrib_left mult.assoc)
  also have "\<dots> = (\<Sum>k<n. X ! r ! k * cnj (\<Sum>l<n. A ! i ! l * X ! l ! k))"
    by (rule sum.cong) (use assms(1,2) in \<open>auto simp: moore_penrose_def\<close>)
  also have "\<dots> = 0"
    using assms(3) by simp
  finally show ?thesis .
qed

lemma square_ncols: "square n M \<Longrightarrow> ncols M = n"
  by (cases M) (auto simp: square_def ncols_def)

lemma dot_zero_columns:
  assumes "square n W" and "length fl = n" and "length y1 = length y2"
    and "\<forall>i<n. fl ! i \<longrightarrow> (\<forall>r<n. W ! r ! i = 0)"
    and "\<forall>i<length y1. \<not> fl ! i \<longrightarrow> y1 ! i = y2 ! i"
  shows "dot W y1 = dot W y2"
proof (cases "length y1 = n")
  case True
  have "(\<Sum>k<n. W ! r ! k * y1 ! k) = (\<Sum>k<n. W ! r ! k * y2 ! k)" if "r < n" for r
    by (rule sum.cong) (use assms True that in auto)
  then have "map (\<lambda>row. \<Sum>k<n. row ! k * y1 ! k) W = map (\<lambda>row. \<Sum>k<n. row ! k * y2 ! k) W"
    using assms(1) by (intro nth_equalityI) (simp_all add: square_def)
  then show ?thesis
    using True assms(3) by (simp add: dot_def)
next
  case False
  then show ?thesis
    using assms(1,3) by (simp add: dot_def square_ncols)
qed

lemma square_madd: "square n A \<Longrightarrow> square n B \<Longrightarrow> square n (madd A B)"
  by (auto simp: square_def madd_def set_zip)

lemma square_identity: "square n (identity n)"
  by (auto simp: square_def identity_def)

lemma square_zeros: "square n (zeros n)"
  by (auto simp: square_def zeros_def)

lemma square_patch_matrix: "patch_matrix n freqs pc pw ff = Inr T \<Longrightarrow> square n T"
  by (auto simp: patch_matrix_def square_def split: if_splits)

lemma square_patch_loop:
  "patch_loop n freqs pc pw ff ps M = Inr N \<Longrightarrow> square n M \<Longrightarrow> square n N"
proof (induction ps arbitrary: M)
  case Nil
  then show ?case by simp
next
  case (Cons p ps)
  obtain cp cw where p: "p = (cp, cw)" by (cases p)
  show ?case
  proof (cases "0 < ff")
    case True
    with Cons.prems(1) p obtain T where T: "patch_matrix n freqs pc pw ff = Inr T"
      and N: "patch_loop n freqs pc pw ff ps (madd M T) = Inr N"
      by (auto split: sum.splits)
    have "square n (madd M T)"
      using Cons.prems(2) square_patch_matrix [OF T] by (rule square_madd)
    with N show ?thesis by (rule Cons.IH)
  next
    case False
    with Cons.prems p have "patch_loop n freqs pc pw ff ps M = Inr N" by simp
    then show ?thesis using Cons.prems(2) by (rule Cons.IH)
  qed
qed

lemma square_continuous_inv:
  "continuous_inv n freqs pc pw ff = Inr M \<Longrightarrow> length freqs = n \<Longrightarrow> square n M"
  by (auto simp: continuous_inv_def split: sum.splits
      intro!: square_madd square_identity dest: square_patch_loop [OF _ square_zeros])

lemma zero_flagged_rows:
  assumes "zero_flagged n fl M = Inr Z" and "square n M" and "i < n" and "fl ! i" and "l < n"
  shows "Z ! i ! l = 0"
  using assms by (auto simp: zero_flagged_def zero_rows_def zero_cols_def square_def split: if_splits)

lemma filter_mat_inv_flagged_rows:
  assumes "filter_mat_inv n df pc pw ff True fl dft = Inr Z" and "i < n" and "fl ! i" and "l < n"
  shows "Z ! i ! l = 0"
proof -
  from assms(1) obtain M where M: "continuous_inv n (freq_grid n df) pc pw ff = Inr M"
    and Z: "zero_flagged n fl M = Inr Z"
    by (auto simp: filter_mat_inv_def discrete_inv_def Let_def split: if_splits sum.splits)
  have "square n M" using M by (rule square_continuous_inv) simp
  then show "Z ! i ! l = 0" using zero_flagged_rows [OF Z _ assms(2-4)] by simp
qed

lemma filter_mat_inv_flags_length:
  assumes "filter_mat_inv n df pc pw ff True fl dft = Inr Z"
  shows "length fl = n"
  using assms
  by (auto simp: filter_mat_inv_def zero_flagged_def Let_def split: if_splits sum.splits)

lemma linear_filter_matrix_error:
  assumes "2 \<le> nf"
    and "get_bools h flags = Inr fl" and "get_list h patch_c = Inr pc"
    and "get_list h patch_w = Inr pw" and "get_dict h WMAT_CACHE = Inr d"
    and "d (wkey nf df pc pw filter_factor zero_flags fl discrete_ft) = None"
    and "filter_mat_inv nf df pc pw filter_factor zero_flags fl discrete_ft = Inl e"
  shows "linear_filter_matrix pinv nf df patch_c patch_w filter_factor zero_flags flags cache
           discrete_ft h = (Inl e, h)"
  using assms by (simp add: linear_filter_matrix_def)

lemma mode_WTL_ignores_flagged_data_on_fresh_key:
  assumes y1: "get_complexes h ydata1 = Inr y1" and y2: "get_complexes h ydata2 = Inr y2"
    and a1: "ydata1 < fresh h" and a2: "ydata2 < fresh h"
    and fs: "get_floats h freqs = Inr fs"
    and fl: "get_bools h flags = Inr fl" and c: "get_list h pc = Inr c"
    and w: "get_list h pw = Inr w" and d: "get_dict h WMAT_CACHE = Inr d"
    and miss: "d (wkey (length fs) (fs ! 1 - fs ! 0) c w ff True fl False) = None"
    and mp: "\<And>M. filter_mat_inv (length fs) (fs ! 1 - fs ! 0) c w ff True fl False = Inr M
               \<Longrightarrow> moore_penrose (length fs) M (pinv M)"
    and len: "length y1 = length y2"
    and agree: "\<forall>i<length y1. \<not> fl ! i \<longrightarrow> y1 ! i = y2 ! i"
  shows "dedekind pinv get_window freqs ydata1 flags ff pc pw ''WTL'' True od taper cache h
       = dedekind pinv get_window freqs ydata2 flags ff pc pw ''WTL'' True od taper cache h"
proof (cases "length fs < 2")
  case True
  then show ?thesis
    using fs by (simp add: dedekind_def weight_operator_def Let_def split: sum.splits)
next
  case False
  then have n: "2 \<le> length fs" by simp
  let ?n = "length fs" and ?df = "fs ! 1 - fs ! 0"
  show ?thesis
  proof (cases "filter_mat_inv ?n ?df c w ff True fl False")
    case (Inl e)
    have "linear_filter_matrix pinv ?n ?df pc pw ff True flags cache False h = (Inl e, h)"
      using n fl c w d miss Inl by (rule linear_filter_matrix_error)
    then show ?thesis
      using fs n by (simp add: dedekind_def weight_operator_def Let_def split: sum.splits)
  next
    case (Inr M)
    let ?h1 = "\<lparr>objs = (objs h)(fresh h \<mapsto> Matrix (pinv M),
                 WMAT_CACHE \<mapsto> Dict (d(wkey ?n ?df c w ff True fl False \<mapsto> fresh h))),
             fresh = Suc (fresh h)\<rparr>"
    have l: "linear_filter_matrix pinv ?n ?df pc pw ff True flags cache False h
        = (Inr (fresh h), ?h1)"
      using n fl c w d miss Inr by (rule linear_filter_matrix_miss)
    have nd: "ydata1 \<noteq> WMAT_CACHE" "ydata2 \<noteq> WMAT_CACHE"
      using y1 y2 d by (auto simp: get_complexes_def get_dict_def split: option.splits pyobj.splits)
    have fr: "fresh h \<noteq> WMAT_CACHE"
      using a1 by (simp add: WMAT_CACHE_def)
    have m: "get_matrix ?h1 (fresh h) = Inr (pinv M)"
      using fr by (simp add: get_matrix_def)
    have wo: "weight_operator pinv fs flags ff pc pw ''WTL'' True cache h
        = (Inr (Some (pinv M)), ?h1)"
      using n l m by (simp add: weight_operator_def Let_def)
    have y1': "get_complexes ?h1 ydata1 = Inr y1" and y2': "get_complexes ?h1 ydata2 = Inr y2"
      using y1 y2 a1 a2 nd by (simp_all add: get_complexes_def)
    have MP: "moore_penrose ?n M (pinv M)" using Inr by (rule mp)
    have "dot (pinv M) y1 = dot (pinv M) y2"
    proof (rule dot_zero_columns [where n = ?n and fl = fl])
      show "square ?n (pinv M)" using MP by (simp add: moore_penrose_def)
      show "length fl = ?n" using Inr by (rule filter_mat_inv_flags_length)
      show "\<forall>i<?n. fl ! i \<longrightarrow> (\<forall>r<?n. pinv M ! r ! i = 0)"
        using moore_penrose_zero_column [OF MP] filter_mat_inv_flagged_rows [OF Inr]
        by blast
    qed (use len agree in auto)
    then have "forward (pinv M) y1 tp = forward (pinv M) y2 tp" for tp
      by (simp add: forward_def)
    then show ?thesis
      using fs wo y1' y2' by (simp add: dedekind_def split: sum.splits)
  qed
qed

lemma moore_penrose_diagonal_example:
  "moore_penrose 2 [[0, 0], [0, 1]] (pinv_diagonal [[0, 0], [0, 1]])"
  by (simp add: moore_penrose_def square_def pinv_diagonal_def eval_nat_numeral
      lessThan_Suc All_less_Suc)

lemma moore_penrose_identity: "moore_penrose n (identity n) (pinv_diagonal (identity n))"
proof -
  have X: "pinv_diagonal (identity n) = identity n"
    by (rule pinv_diagonal_identity)
  have e: "identity n ! r ! c = (if r = c then 1 else 0)" if "r < n" "c < n" for r c
    using that by (simp add: identity_def)
  have one: "(\<Sum>l<n. identity n ! r ! l * identity n ! l ! c) = identity n ! r ! c"
    if "r < n" "c < n" for r c
  proof -
    have "(\<Sum>l<n. identity n ! r ! l * identity n ! l ! c)
        = (\<Sum>l<n. if l = r then identity n ! l ! c else 0)"
      by (rule sum.cong) (use that in \<open>auto simp: e\<close>)
    also have "\<dots> = identity n ! r ! c" using that by simp
    finally show ?thesis .
  qed
  have three: "(\<Sum>k<n. \<Sum>l<n. identity n ! r ! k * identity n ! k ! l * identity n ! l ! c)
      = identity n ! r ! c" if "r < n" "c < n" for r c
  proof -
    have "(\<Sum>k<n. \<Sum>l<n. identity n ! r ! k * identity n ! k ! l * identity n ! l ! c)
        = (\<Sum>k<n. identity n ! r ! k * (\<Sum>l<n. identity n ! k ! l * identity n ! l ! c))"
      by (simp add: sum_distrib_left mult.assoc)
    also have "\<dots> = (\<Sum>k<n. identity n ! r ! k * identity n ! k ! c)"
      by (rule sum.cong) (use that in \<open>auto simp: one\<close>)
    also have "\<dots> = identity n ! r ! c" using that by (rule one)
    finally show ?thesis .
  qed
  have sym: "cnj (identity n ! c ! r) = identity n ! r ! c" if "r < n" "c < n" for r c
    using that by (auto simp: e)
  have "square n (identity n)"
    by (auto simp: square_def identity_def)
  then show ?thesis
    unfolding X moore_penrose_def by (simp add: three one sym)
qed

text \<open>
  Claim C5: with \<^verbatim>\<open>zero_flags\<close> set, data at flagged channels never reaches the output, in
  mode \<^verbatim>\<open>"I"\<close> and in mode \<^verbatim>\<open>"WTL"\<close>. In mode \<^verbatim>\<open>"WTL"\<close> the code breaks this through
  its cache key, which concatenates the flagged indices and the patch values: three
  channels with channels 0 and 1 flagged and no patch have the key of three unflagged
  channels with the patch \<open>(0, 1)\<close>. After a call of the second kind, a call of the first
  kind is handed the unmasked matrix, and two data vectors that agree on the only
  unflagged channel come out different.
\<close>

theorem flagged_data_leaks_through_cache:
  "(let h0 = heap_with [FloatArray [100, 101, 102], ComplexArray [1, 0, 5], ComplexArray [2, 0, 5],
                 BoolArray [False, False, False], BoolArray [True, True, False],
                 PyList [0], PyList [1], PyList []];
        hB = snd (dedekind pinv_diagonal boxcar_only 1 2 4 0 6 7 ''WTL'' True ''frequency''
                    ''boxcar'' WMAT_CACHE h0);
        r1 = dedekind pinv_diagonal boxcar_only 1 2 5 0 8 8 ''WTL'' True ''frequency''
               ''boxcar'' WMAT_CACHE hB;
        r2 = dedekind pinv_diagonal boxcar_only 1 3 5 0 8 8 ''WTL'' True ''frequency''
               ''boxcar'' WMAT_CACHE hB
    in fst r1 = Inr (1, 11) \<and> get_complexes (snd r1) 11 = Inr [1, 0, 5]
     \<and> fst r2 = Inr (1, 11) \<and> get_complexes (snd r2) 11 = Inr [2, 0, 5])"
proof -
  let ?hs = "heap_with [FloatArray [100, 101, 102], ComplexArray [1, 0, 5], ComplexArray [2, 0, 5],
                 BoolArray [False, False, False], BoolArray [True, True, False],
                 PyList [0], PyList [1], PyList []]"
  let ?k = "[3, 1, 0, 1, 0, 0, 1] :: real list"
  let ?hM = "\<lparr>objs = (objs ?hs)(9 \<mapsto> Matrix (pinv_diagonal (identity 3)),
                   WMAT_CACHE \<mapsto> Dict (Map.empty(?k \<mapsto> 9))), fresh = 10\<rparr>"
  let ?hB = "\<lparr>objs = (objs ?hM)(10 \<mapsto> ComplexArray [1, 0, 5]), fresh = 11\<rparr>"
  have win: "boxcar_only ''boxcar'' (length [100 :: real, 101, 102]) = Inr [1, 1, 1]"
    by (simp add: boxcar_only_def)
  have fs0: "get_floats ?hs 1 = Inr [100, 101, 102]" and fr0: "fresh ?hs = 9"
    and fl0: "get_bools ?hs 4 = Inr [False, False, False]"
    and pc0: "get_list ?hs 6 = Inr [0]" and pw0: "get_list ?hs 7 = Inr [1]"
    and d0: "get_dict ?hs WMAT_CACHE = Inr Map.empty"
    by (simp_all add: heap_eval)
  have invB: "filter_mat_inv 3 1 [0] [1] 0 True [False, False, False] False = Inr (identity 3)"
    by (simp add: filter_mat_inv_all_pass) (simp add: identity_3 zero_rows_def zero_cols_def)
  have lB: "linear_filter_matrix pinv_diagonal 3 1 6 7 0 True 4 WMAT_CACHE False ?hs = (Inr 9, ?hM)"
    using linear_filter_matrix_miss [where pinv = pinv_diagonal and cache = WMAT_CACHE,
        OF _ fl0 pc0 pw0 d0 _ invB]
    by (simp add: fr0 wkey_collision)
  have wB: "weight_operator pinv_diagonal [100, 101, 102] 4 0 6 7 ''WTL'' True WMAT_CACHE ?hs
      = (Inr (Some (identity 3)), ?hM)"
  proof (rule weight_operator_WTL [where nf = 3 and df = 1 and m = 9, OF _ _ _ lB])
    show "get_matrix ?hM 9 = Inr (identity 3)"
      by (simp add: get_matrix_def pinv_diagonal_identity WMAT_CACHE_def)
  qed simp_all
  have yB: "get_complexes ?hM 2 = Inr [1, 0, 5]"
    by (simp add: heap_eval)
  have runB: "dedekind pinv_diagonal boxcar_only 1 2 4 0 6 7 ''WTL'' True ''frequency''
                    ''boxcar'' WMAT_CACHE ?hs = (Inr (1, 10), ?hB)"
    using dedekind_frequency [where get_window = boxcar_only and taper = "''boxcar''",
        OF fs0 win wB yB dot_identity]
    by simp
  have fsB: "get_floats ?hB 1 = Inr [100, 101, 102]"
    and flB: "get_bools ?hB 5 = Inr [True, True, False]"
    and pB: "get_list ?hB 8 = Inr []"
    and dB: "get_dict ?hB WMAT_CACHE = Inr (Map.empty(?k \<mapsto> 9))"
    and mB: "get_matrix ?hB 9 = Inr (identity 3)"
    and y1: "get_complexes ?hB 2 = Inr [1, 0, 5]" and y2: "get_complexes ?hB 3 = Inr [2, 0, 5]"
    by (simp_all add: heap_eval pinv_diagonal_identity)
  have lA: "linear_filter_matrix pinv_diagonal 3 1 8 8 0 True 5 WMAT_CACHE False ?hB = (Inr 9, ?hB)"
    by (rule linear_filter_matrix_hit [OF _ flB pB pB dB]) (simp_all add: wkey_collision)
  have wA: "weight_operator pinv_diagonal [100, 101, 102] 5 0 8 8 ''WTL'' True WMAT_CACHE ?hB
      = (Inr (Some (identity 3)), ?hB)"
    by (rule weight_operator_WTL [where nf = 3 and df = 1 and m = 9, OF _ _ _ lA mB]) simp_all
  have run1: "dedekind pinv_diagonal boxcar_only 1 2 5 0 8 8 ''WTL'' True ''frequency''
               ''boxcar'' WMAT_CACHE ?hB
      = (Inr (1, 11), \<lparr>objs = (objs ?hB)(11 \<mapsto> ComplexArray [1, 0, 5]), fresh = 12\<rparr>)"
    using dedekind_frequency [where get_window = boxcar_only and taper = "''boxcar''",
        OF fsB win wA y1 dot_identity]
    by simp
  have run2: "dedekind pinv_diagonal boxcar_only 1 3 5 0 8 8 ''WTL'' True ''frequency''
               ''boxcar'' WMAT_CACHE ?hB
      = (Inr (1, 11), \<lparr>objs = (objs ?hB)(11 \<mapsto> ComplexArray [2, 0, 5]), fresh = 12\<rparr>)"
    using dedekind_frequency [where get_window = boxcar_only and taper = "''boxcar''",
        OF fsB win wA y2 dot_identity]
    by simp
  show ?thesis
    unfolding Let_def runB snd_conv run1 run2 fst_conv
    by (simp add: get_complexes_def)
qed

end
